theory Spec2Isabelle
  imports Main "HOL-Library.Word"
begin

section \<open>JavaScript strings\<close>

text \<open>
  A JavaScript string is a sequence of UTF-16 code units. The string methods used by
  the link validator (\<^verbatim>\<open>trim\<close>, \<^verbatim>\<open>startsWith\<close>, \<^verbatim>\<open>includes\<close>, \<^verbatim>\<open>replace\<close> with a regular
  expression that has no \<^verbatim>\<open>u\<close> flag) all work on code units.
\<close>

type_synonym code_unit = "16 word"
type_synonym js_string = "code_unit list"

text \<open>An ASCII literal of the source, as the code units it denotes.\<close>

definition lit :: "string \<Rightarrow> js_string" where
  "lit s = map of_char s"

text \<open>
  \<^verbatim>\<open>String.prototype.trim\<close> removes leading and trailing WhiteSpace and LineTerminator
  code points (ECMAScript 12.2 and 12.3): TAB, VT, FF, SP, NBSP, ZWNBSP, the category Zs,
  and LF, CR, LS, PS. All of them are single code units.
\<close>

definition isWhiteSpace :: "code_unit \<Rightarrow> bool" where
  "isWhiteSpace c \<longleftrightarrow>
     c = 0x0009 \<or> c = 0x000A \<or> c = 0x000B \<or> c = 0x000C \<or> c = 0x000D \<or>
     c = 0x0020 \<or> c = 0x00A0 \<or> c = 0x1680 \<or> (0x2000 \<le> c \<and> c \<le> 0x200A) \<or>
     c = 0x2028 \<or> c = 0x2029 \<or> c = 0x202F \<or> c = 0x205F \<or> c = 0x3000 \<or> c = 0xFEFF"

definition trim :: "js_string \<Rightarrow> js_string" where
  "trim s = rev (dropWhile isWhiteSpace (rev (dropWhile isWhiteSpace s)))"

text \<open>\<^verbatim>\<open>s.startsWith(p)\<close> with the default position 0.\<close>

definition startsWith :: "js_string \<Rightarrow> js_string \<Rightarrow> bool" where
  "startsWith s p \<longleftrightarrow> take (length p) s = p"

text \<open>\<^verbatim>\<open>s.includes(p)\<close>: \<^verbatim>\<open>p\<close> occurs in \<^verbatim>\<open>s\<close> as a substring.\<close>

fun includes_str :: "js_string \<Rightarrow> js_string \<Rightarrow> bool" where
  "includes_str [] p = (p = [])"
| "includes_str (c # cs) p = (startsWith (c # cs) p \<or> includes_str cs p)"

text \<open>
  \<^verbatim>\<open>s.replace(/[...]/, rep)\<close> for a character class and a replacement text without
  \<^verbatim>\<open>$\<close> patterns: the regular expression is not global, so only the leftmost code unit
  of the class is replaced; a string without a match is returned as it is.
\<close>

fun replace_class :: "code_unit list \<Rightarrow> js_string \<Rightarrow> js_string \<Rightarrow> js_string" where
  "replace_class cls rep [] = []"
| "replace_class cls rep (c # cs) =
     (if c \<in> set cls then rep @ cs else c # replace_class cls rep cs)"

section \<open>Comments and display parts\<close>

text \<open>
  Modelled from the spec: the declarations of \<^verbatim>\<open>CommentDisplayPart\<close>, \<^verbatim>\<open>Comment\<close> and the
  reflection classes are those of \<^verbatim>\<open>../models\<close>, which the validator only imports. A
  display part is a tagged variant with the three cases \<^verbatim>\<open>text\<close>, \<^verbatim>\<open>code\<close> and
  \<^verbatim>\<open>inline-tag\<close>; the target of an inline tag is optional and is a reflection (given here
  by its id), a string (the URL of an external link) or a \<^verbatim>\<open>ReflectionSymbolId\<close>, the
  placeholder of a link that was recognised but never bound.
\<close>

datatype LinkTarget =
    ReflectionTarget nat
  | StringTarget js_string
  | ReflectionSymbolId

datatype CommentDisplayPart =
    TextPart (part_text: js_string)
  | CodePart (part_text: js_string)
  | InlineTag (tag: js_string) (part_text: js_string) (target: "LinkTarget option")

record CommentTag =
  content :: "CommentDisplayPart list"

record Comment =
  summary :: "CommentDisplayPart list"
  blockTags :: "CommentTag list"

text \<open>
  \<^verbatim>\<open>!part.target\<close>: the target is falsy when the property is \<^verbatim>\<open>undefined\<close> or when it is
  the empty string; objects are never falsy.
\<close>

fun falsy :: "LinkTarget option \<Rightarrow> bool" where
  "falsy None = True"
| "falsy (Some (StringTarget s)) = (s = [])"
| "falsy (Some (ReflectionTarget r)) = False"
| "falsy (Some ReflectionSymbolId) = False"

text \<open>\<^verbatim>\<open>part.target instanceof ReflectionSymbolId\<close>\<close>

fun instanceof_ReflectionSymbolId :: "LinkTarget option \<Rightarrow> bool" where
  "instanceof_ReflectionSymbolId (Some ReflectionSymbolId) = True"
| "instanceof_ReflectionSymbolId _ = False"

section \<open>The link validator\<close>

definition linkTags :: "js_string list" where
  "linkTags = [lit ''@link'', lit ''@linkcode'', lit ''@linkplain'']"

text \<open>
  The condition of the \<^verbatim>\<open>if\<close> in \<^verbatim>\<open>getBrokenPartLinks\<close>; \<^verbatim>\<open>&&\<close> reads \<^verbatim>\<open>tag\<close> and
  \<^verbatim>\<open>target\<close> only of a part whose kind is \<^verbatim>\<open>inline-tag\<close>.
\<close>

fun pushes_link :: "CommentDisplayPart \<Rightarrow> bool" where
  "pushes_link (InlineTag tg tx tgt) =
     (tg \<in> set linkTags \<and> (falsy tgt \<or> instanceof_ReflectionSymbolId tgt))"
| "pushes_link (TextPart tx) = False"
| "pushes_link (CodePart tx) = False"

text \<open>The \<^verbatim>\<open>for ... of\<close> loop over the parts, pushing onto \<^verbatim>\<open>links\<close>.\<close>

definition getBrokenPartLinks :: "CommentDisplayPart list \<Rightarrow> js_string list" where
  "getBrokenPartLinks parts =
     fold (\<lambda>part links. if pushes_link part then links @ [trim (part_text part)] else links)
       parts []"

text \<open>\<^verbatim>\<open>comment\<close> is \<^verbatim>\<open>Comment | undefined\<close>.\<close>

definition getBrokenLinks :: "Comment option \<Rightarrow> js_string list" where
  "getBrokenLinks comment =
     (case comment of
        None \<Rightarrow> []
      | Some c \<Rightarrow>
          fold (\<lambda>tag links. links @ getBrokenPartLinks (content tag))
            (blockTags c) (getBrokenPartLinks (summary c)))"

section \<open>Reflections\<close>

text \<open>
  Modelled from the spec: the reflection classes of \<^verbatim>\<open>../models\<close>. Every reflection has an
  id, a kind, an optional comment and a friendly full name (\<^verbatim>\<open>getFriendlyFullName()\<close>,
  derived by the model, taken here as a field). \<^verbatim>\<open>isProject()\<close>, \<^verbatim>\<open>isDeclaration()\<close>
  and \<^verbatim>\<open>isDocument()\<close> tell the class of the node, which decides the further fields: an
  optional \<^verbatim>\<open>readme\<close> for a project or a declaration, an optional \<^verbatim>\<open>type\<close> for a
  declaration, the \<^verbatim>\<open>content\<close> of a document. Of the types only the union type matters,
  with its optional \<^verbatim>\<open>elementSummaries\<close>. Of the kinds only \<^verbatim>\<open>TypeAlias\<close> matters;
  each kind is one flag, so \<^verbatim>\<open>kindOf(ReflectionKind.TypeAlias)\<close> is the test for that kind.
\<close>

datatype ReflectionKind =
  Project | Module | Namespace | Class | Interface | Function | Variable | TypeAlias | Document

datatype SomeType =
    UnionType (elementSummaries: "CommentDisplayPart list list option")
  | OtherType

datatype ReflectionClass =
    ProjectReflection "CommentDisplayPart list option"
  | DeclarationReflection "CommentDisplayPart list option" "SomeType option"
  | DocumentReflection "CommentDisplayPart list"
  | OtherReflection

record Reflection =
  ident :: nat
  kind :: ReflectionKind
  comment :: "Comment option"
  friendlyFullName :: js_string
  cls :: ReflectionClass

definition kindOf :: "Reflection \<Rightarrow> ReflectionKind \<Rightarrow> bool" where
  "kindOf reflection k \<longleftrightarrow> kind reflection = k"

text \<open>
  \<^verbatim>\<open>reflections\<close> is an object with the ids as keys. It is given by its entries; the
  entry that counts for a key is the first one. \<^verbatim>\<open>for (const id in obj)\<close> enumerates the
  integer keys of an object in ascending order, each once; the ids are such keys.
\<close>

type_synonym reflections_object = "(nat \<times> Reflection) list"

record ProjectReflection = Reflection +
  reflections :: reflections_object

definition own_keys :: "reflections_object \<Rightarrow> nat list" where
  "own_keys obj = sort (remdups (map fst obj))"

text \<open>\<^verbatim>\<open>id in obj\<close>\<close>

definition has_key :: "nat \<Rightarrow> reflections_object \<Rightarrow> bool" where
  "has_key k obj \<longleftrightarrow> k \<in> fst ` set obj"

section \<open>Messages and the logger\<close>

text \<open>
  The message templates of \<^verbatim>\<open>i18n\<close> that the validator calls. A message is a template
  with its arguments, in the order of the call; the logger is the sequence of messages that
  \<^verbatim>\<open>warn\<close> has received.
\<close>

datatype template =
    failed_to_resolve_link_to_0_in_readme_for_1_may_have_meant_2
  | failed_to_resolve_link_to_0_in_readme_for_1
  | failed_to_resolve_link_to_0_in_document_1_may_have_meant_2
  | failed_to_resolve_link_to_0_in_document_1
  | failed_to_resolve_link_to_0_in_comment_for_1_may_have_meant_2
  | failed_to_resolve_link_to_0_in_comment_for_1

datatype message = Message (template_of: template) (args: "js_string list")

type_synonym Logger = "message list"

definition warn :: "message \<Rightarrow> Logger \<Rightarrow> Logger" where
  "warn m logger = logger @ [m]"

section \<open>The check of one reflection\<close>

text \<open>The bodies of the four \<^verbatim>\<open>for\<close> loops of \<^verbatim>\<open>checkReflection\<close>, in the order of the source.\<close>

definition readme_body :: "Reflection \<Rightarrow> js_string \<Rightarrow> Logger \<Rightarrow> Logger" where
  "readme_body reflection broken logger =
     (if startsWith broken (lit ''@'') \<and> \<not> includes_str broken (lit ''!'')
      then warn (Message failed_to_resolve_link_to_0_in_readme_for_1_may_have_meant_2
             [broken, friendlyFullName reflection,
              replace_class (lit ''.#~'') (lit ''!'') broken]) logger
      else warn (Message failed_to_resolve_link_to_0_in_readme_for_1
             [broken, friendlyFullName reflection]) logger)"

definition document_body :: "Reflection \<Rightarrow> js_string \<Rightarrow> Logger \<Rightarrow> Logger" where
  "document_body reflection broken logger =
     (if startsWith broken (lit ''@'') \<and> \<not> includes_str broken (lit ''!'')
      then warn (Message failed_to_resolve_link_to_0_in_document_1_may_have_meant_2
             [broken, friendlyFullName reflection,
              replace_class (lit ''.#~'') (lit ''!'') broken]) logger
      else warn (Message failed_to_resolve_link_to_0_in_document_1
             [broken, friendlyFullName reflection]) logger)"

definition comment_body :: "Reflection \<Rightarrow> js_string \<Rightarrow> Logger \<Rightarrow> Logger" where
  "comment_body reflection broken logger =
     (if startsWith broken (lit ''@'') \<and> \<not> includes_str broken (lit ''!'')
      then warn (Message failed_to_resolve_link_to_0_in_comment_for_1_may_have_meant_2
             [broken, friendlyFullName reflection,
              replace_class (lit ''.#~'') (lit ''!'') broken]) logger
      else warn (Message failed_to_resolve_link_to_0_in_comment_for_1
             [broken, friendlyFullName reflection]) logger)"

definition union_body :: "Reflection \<Rightarrow> js_string \<Rightarrow> Logger \<Rightarrow> Logger" where
  "union_body reflection broken logger =
     (if startsWith broken (lit ''@'') \<and> \<not> includes_str broken (lit ''!'')
      then warn (Message failed_to_resolve_link_to_0_in_comment_for_1_may_have_meant_2
             [broken, friendlyFullName reflection,
              replace_class (lit ''.#~'') (lit ''!'') broken]) logger
      else warn (Message failed_to_resolve_link_to_0_in_comment_for_1
             [broken, friendlyFullName reflection]) logger)"

text \<open>
  The four statements of \<^verbatim>\<open>checkReflection\<close>. \<^verbatim>\<open>reflection.readme || []\<close> is the empty
  list for an absent readme; \<^verbatim>\<open>reflection.type?.type === "union"\<close> is false for an absent
  type; \<^verbatim>\<open>elementSummaries\<close> is an array or absent, and every array is truthy.
\<close>

definition check_readme :: "Reflection \<Rightarrow> Logger \<Rightarrow> Logger" where
  "check_readme reflection logger =
     (case cls reflection of
        ProjectReflection readme \<Rightarrow>
          fold (readme_body reflection)
            (getBrokenPartLinks (case readme of None \<Rightarrow> [] | Some ps \<Rightarrow> ps)) logger
      | DeclarationReflection readme ty \<Rightarrow>
          fold (readme_body reflection)
            (getBrokenPartLinks (case readme of None \<Rightarrow> [] | Some ps \<Rightarrow> ps)) logger
      | _ \<Rightarrow> logger)"

definition check_document :: "Reflection \<Rightarrow> Logger \<Rightarrow> Logger" where
  "check_document reflection logger =
     (case cls reflection of
        DocumentReflection cont \<Rightarrow> fold (document_body reflection) (getBrokenPartLinks cont) logger
      | _ \<Rightarrow> logger)"

definition check_comment :: "Reflection \<Rightarrow> Logger \<Rightarrow> Logger" where
  "check_comment reflection logger =
     fold (comment_body reflection) (getBrokenLinks (comment reflection)) logger"

definition check_union :: "Reflection \<Rightarrow> Logger \<Rightarrow> Logger" where
  "check_union reflection logger =
     (case cls reflection of
        DeclarationReflection readme (Some (UnionType (Some summaries))) \<Rightarrow>
          if kindOf reflection TypeAlias
          then fold (union_body reflection) (concat (map getBrokenPartLinks summaries)) logger
          else logger
      | _ \<Rightarrow> logger)"

definition checkReflection :: "Reflection \<Rightarrow> Logger \<Rightarrow> Logger" where
  "checkReflection reflection logger =
     check_union reflection
       (check_comment reflection
         (check_document reflection
           (check_readme reflection logger)))"

section \<open>The traversal\<close>

text \<open>
  \<^verbatim>\<open>project.reflections[id]\<close> of a missing key is \<^verbatim>\<open>undefined\<close>, and the first method
  call of the check on \<^verbatim>\<open>undefined\<close> throws a \<^verbatim>\<open>TypeError\<close>. The check is a parameter of
  the traversal, so that the traversal can be observed with any check.
\<close>

datatype error = TypeError

fun for_in :: "(Reflection \<Rightarrow> 'l \<Rightarrow> 'l) \<Rightarrow> reflections_object \<Rightarrow> nat list \<Rightarrow> 'l \<Rightarrow> error + 'l" where
  "for_in check obj [] logger = Inr logger"
| "for_in check obj (k # ks) logger =
     (case map_of obj k of
        None \<Rightarrow> Inl TypeError
      | Some reflection \<Rightarrow> for_in check obj ks (check reflection logger))"

text \<open>The project is passed to the check as the reflection that it is.\<close>

definition validateLinks_with ::
  "(Reflection \<Rightarrow> 'l \<Rightarrow> 'l) \<Rightarrow> ProjectReflection \<Rightarrow> 'l \<Rightarrow> error + 'l" where
  "validateLinks_with check project logger =
     (case for_in check (reflections project) (own_keys (reflections project)) logger of
        Inl e \<Rightarrow> Inl e
      | Inr logger' \<Rightarrow>
          if \<not> has_key (ident project) (reflections project)
          then Inr (check (Reflection.truncate project) logger')
          else Inr logger')"

definition validateLinks :: "ProjectReflection \<Rightarrow> Logger \<Rightarrow> error + Logger" where
  "validateLinks = validateLinks_with checkReflection"

section \<open>Page events\<close>

text \<open>
  \<^verbatim>\<open>pageHeadings\<close> and the \<^verbatim>\<open>headings\<close> of a section are references to arrays, and two
  of them may be the same array. The arrays live in a store; a reference is an index into
  it, and an array literal allocates the next free index.
\<close>

record PageHeading =
  link :: js_string
  heading_text :: js_string
  level :: "int option"
  heading_kind :: "ReflectionKind option"
  classes :: "js_string option"

type_synonym ref = nat
type_synonym store = "PageHeading list list"

record PageSection =
  title :: js_string
  headings :: ref

text \<open>
  \<^verbatim>\<open>project\<close>, \<^verbatim>\<open>filename\<close>, \<^verbatim>\<open>url\<close> and \<^verbatim>\<open>pageKind\<close> have no initialiser and are
  assigned by the renderer; \<^verbatim>\<open>contents\<close> is optional.
\<close>

record 'm PageEvent =
  project :: "ProjectReflection option"
  filename :: "js_string option"
  url :: "js_string option"
  pageKind :: "js_string option"
  model :: 'm
  contents :: "js_string option"
  pageHeadings :: ref
  pageSections :: "PageSection list"

text \<open>The field initialisers, in the order of the class body, and the constructor.\<close>

definition new_PageEvent :: "'m \<Rightarrow> store \<Rightarrow> 'm PageEvent \<times> store" where
  "new_PageEvent m st =
     (let a = length st
      in (\<lparr>project = None, filename = None, url = None, pageKind = None, model = m,
           contents = None, pageHeadings = a,
           pageSections = [\<lparr>title = [], headings = a\<rparr>]\<rparr>,
          st @ [[]]))"

definition startNewSection :: "js_string \<Rightarrow> 'm PageEvent \<times> store \<Rightarrow> 'm PageEvent \<times> store" where
  "startNewSection t s =
     (case s of (ev, st) \<Rightarrow>
        let a = length st
        in (ev\<lparr>pageHeadings := a,
                pageSections := pageSections ev @ [\<lparr>title = t, headings = a\<rparr>]\<rparr>,
            st @ [[]]))"

text \<open>
  Modelled from the spec: the code that records a heading is not in \<^verbatim>\<open>events.ts\<close>; it
  pushes onto the array that \<^verbatim>\<open>pageHeadings\<close> refers to. A reference that the event
  holds is always allocated; the store is left alone otherwise.
\<close>

definition pushHeading :: "PageHeading \<Rightarrow> 'm PageEvent \<times> store \<Rightarrow> 'm PageEvent \<times> store" where
  "pushHeading h s =
     (case s of (ev, st) \<Rightarrow>
        if pageHeadings ev < length st
        then (ev, st[pageHeadings ev := st ! pageHeadings ev @ [h]])
        else (ev, st))"

datatype page_call = StartNewSection js_string | PushHeading PageHeading

fun do_call :: "page_call \<Rightarrow> 'm PageEvent \<times> store \<Rightarrow> 'm PageEvent \<times> store" where
  "do_call (StartNewSection t) s = startNewSection t s"
| "do_call (PushHeading h) s = pushHeading h s"

text \<open>The state of a page after construction and a sequence of calls.\<close>

definition page_after :: "'m \<Rightarrow> store \<Rightarrow> page_call list \<Rightarrow> 'm PageEvent \<times> store" where
  "page_after m st calls = fold do_call calls (new_PageEvent m st)"

section \<open>Index events\<close>

text \<open>
  \<^verbatim>\<open>arr.splice(start, deleteCount)\<close> for an integer \<^verbatim>\<open>start\<close>, as the array it leaves: a
  negative start counts from the end, and both numbers are clamped to the array.
\<close>

definition splice :: "int \<Rightarrow> int \<Rightarrow> 'a list \<Rightarrow> 'a list" where
  "splice start deleteCount xs =
     (let len = int (length xs);
          actualStart = (if start < 0 then max (len + start) 0 else min start len);
          actualDeleteCount = min (max deleteCount 0) (len - actualStart)
      in take (nat actualStart) xs @ drop (nat (actualStart + actualDeleteCount)) xs)"

text \<open>
  A search result is a declaration or a document reflection. The weights are the numbers
  10 and 1 of the source.
\<close>

record IndexEvent =
  searchResults :: "Reflection list"
  searchFields :: "(js_string \<rightharpoonup> js_string) list"
  searchFieldWeights :: "js_string \<rightharpoonup> int"

definition new_IndexEvent :: "Reflection list \<Rightarrow> IndexEvent" where
  "new_IndexEvent results =
     \<lparr>searchResults = results,
      searchFields = map (\<lambda>_. Map.empty) [0 ..< length results],
      searchFieldWeights =
        [lit ''name'' \<mapsto> 10, lit ''comment'' \<mapsto> 1, lit ''document'' \<mapsto> 1]\<rparr>"

definition removeResult :: "int \<Rightarrow> IndexEvent \<Rightarrow> IndexEvent" where
  "removeResult index ev =
     ev\<lparr>searchResults := splice index 1 (searchResults ev),
        searchFields := splice index 1 (searchFields ev)\<rparr>"

section \<open>The validator on a heap\<close>

text \<open>
  The objects that a call of \<^verbatim>\<open>validateLinks\<close> can reach are the project, with every
  reflection, comment and display part in it, and the logger. Here the statements of the
  validator are given once more as functions on a heap that holds both, so that a write to
  either of them is a change of the heap. \<^verbatim>\<open>logger.warn\<close> is the only statement that
  changes an object; \<^verbatim>\<open>project.reflections\<close> and \<^verbatim>\<open>project.id\<close> are read from the heap at
  the moment the statement runs.
\<close>

record heap =
  heap_project :: ProjectReflection
  heap_logger :: Logger

definition logger_warn :: "message \<Rightarrow> heap \<Rightarrow> heap" where
  "logger_warn m h = h\<lparr>heap_logger := warn m (heap_logger h)\<rparr>"

definition readme_body_on :: "Reflection \<Rightarrow> js_string \<Rightarrow> heap \<Rightarrow> heap" where
  "readme_body_on reflection broken h =
     (if startsWith broken (lit ''@'') \<and> \<not> includes_str broken (lit ''!'')
      then logger_warn (Message failed_to_resolve_link_to_0_in_readme_for_1_may_have_meant_2
             [broken, friendlyFullName reflection,
              replace_class (lit ''.#~'') (lit ''!'') broken]) h
      else logger_warn (Message failed_to_resolve_link_to_0_in_readme_for_1
             [broken, friendlyFullName reflection]) h)"

definition document_body_on :: "Reflection \<Rightarrow> js_string \<Rightarrow> heap \<Rightarrow> heap" where
  "document_body_on reflection broken h =
     (if startsWith broken (lit ''@'') \<and> \<not> includes_str broken (lit ''!'')
      then logger_warn (Message failed_to_resolve_link_to_0_in_document_1_may_have_meant_2
             [broken, friendlyFullName reflection,
              replace_class (lit ''.#~'') (lit ''!'') broken]) h
      else logger_warn (Message failed_to_resolve_link_to_0_in_document_1
             [broken, friendlyFullName reflection]) h)"

definition comment_body_on :: "Reflection \<Rightarrow> js_string \<Rightarrow> heap \<Rightarrow> heap" where
  "comment_body_on reflection broken h =
     (if startsWith broken (lit ''@'') \<and> \<not> includes_str broken (lit ''!'')
      then logger_warn (Message failed_to_resolve_link_to_0_in_comment_for_1_may_have_meant_2
             [broken, friendlyFullName reflection,
              replace_class (lit ''.#~'') (lit ''!'') broken]) h
      else logger_warn (Message failed_to_resolve_link_to_0_in_comment_for_1
             [broken, friendlyFullName reflection]) h)"

definition union_body_on :: "Reflection \<Rightarrow> js_string \<Rightarrow> heap \<Rightarrow> heap" where
  "union_body_on reflection broken h =
     (if startsWith broken (lit ''@'') \<and> \<not> includes_str broken (lit ''!'')
      then logger_warn (Message failed_to_resolve_link_to_0_in_comment_for_1_may_have_meant_2
             [broken, friendlyFullName reflection,
              replace_class (lit ''.#~'') (lit ''!'') broken]) h
      else logger_warn (Message failed_to_resolve_link_to_0_in_comment_for_1
             [broken, friendlyFullName reflection]) h)"

definition check_readme_on :: "Reflection \<Rightarrow> heap \<Rightarrow> heap" where
  "check_readme_on reflection h =
     (case cls reflection of
        ProjectReflection readme \<Rightarrow>
          fold (readme_body_on reflection)
            (getBrokenPartLinks (case readme of None \<Rightarrow> [] | Some ps \<Rightarrow> ps)) h
      | DeclarationReflection readme ty \<Rightarrow>
          fold (readme_body_on reflection)
            (getBrokenPartLinks (case readme of None \<Rightarrow> [] | Some ps \<Rightarrow> ps)) h
      | _ \<Rightarrow> h)"

definition check_document_on :: "Reflection \<Rightarrow> heap \<Rightarrow> heap" where
  "check_document_on reflection h =
     (case cls reflection of
        DocumentReflection cont \<Rightarrow>
          fold (document_body_on reflection) (getBrokenPartLinks cont) h
      | _ \<Rightarrow> h)"

definition check_comment_on :: "Reflection \<Rightarrow> heap \<Rightarrow> heap" where
  "check_comment_on reflection h =
     fold (comment_body_on reflection) (getBrokenLinks (comment reflection)) h"

definition check_union_on :: "Reflection \<Rightarrow> heap \<Rightarrow> heap" where
  "check_union_on reflection h =
     (case cls reflection of
        DeclarationReflection readme (Some (UnionType (Some summaries))) \<Rightarrow>
          if kindOf reflection TypeAlias
          then fold (union_body_on reflection) (concat (map getBrokenPartLinks summaries)) h
          else h
      | _ \<Rightarrow> h)"

definition checkReflection_on :: "Reflection \<Rightarrow> heap \<Rightarrow> heap" where
  "checkReflection_on reflection h =
     check_union_on reflection
       (check_comment_on reflection
         (check_document_on reflection
           (check_readme_on reflection h)))"

fun for_in_on :: "nat list \<Rightarrow> heap \<Rightarrow> error + heap" where
  "for_in_on [] h = Inr h"
| "for_in_on (k # ks) h =
     (case map_of (reflections (heap_project h)) k of
        None \<Rightarrow> Inl TypeError
      | Some reflection \<Rightarrow> for_in_on ks (checkReflection_on reflection h))"

definition validateLinks_on :: "heap \<Rightarrow> error + heap" where
  "validateLinks_on h =
     (case for_in_on (own_keys (reflections (heap_project h))) h of
        Inl e \<Rightarrow> Inl e
      | Inr h' \<Rightarrow>
          if \<not> has_key (ident (heap_project h')) (reflections (heap_project h'))
          then Inr (checkReflection_on (Reflection.truncate (heap_project h')) h')
          else Inr h')"

section \<open>The properties, in the words of the specification\<close>

text \<open>A link tag is one of the three spellings.\<close>

definition link_tag :: "js_string \<Rightarrow> bool" where
  "link_tag tg \<longleftrightarrow> tg = lit ''@link'' \<or> tg = lit ''@linkcode'' \<or> tg = lit ''@linkplain''"

text \<open>
  A broken part as the specification describes it: an inline tag with a link tag whose
  target is absent or is the placeholder.
\<close>

fun broken_as_claimed :: "CommentDisplayPart \<Rightarrow> bool" where
  "broken_as_claimed (InlineTag tg tx tgt) =
     (link_tag tg \<and> (tgt = None \<or> tgt = Some ReflectionSymbolId))"
| "broken_as_claimed (TextPart tx) = False"
| "broken_as_claimed (CodePart tx) = False"

text \<open>The same with the empty string as a third target of a broken part.\<close>

fun broken_link_part :: "CommentDisplayPart \<Rightarrow> bool" where
  "broken_link_part (InlineTag tg tx tgt) =
     (link_tag tg \<and>
      (tgt = None \<or> tgt = Some (StringTarget []) \<or> tgt = Some ReflectionSymbolId))"
| "broken_link_part (TextPart tx) = False"
| "broken_link_part (CodePart tx) = False"

text \<open>
  The heuristic: the text starts with \<^verbatim>\<open>@\<close> and does not contain \<^verbatim>\<open>!\<close>. The suggested
  text: the first of \<^verbatim>\<open>.\<close>, \<^verbatim>\<open>#\<close>, \<^verbatim>\<open>~\<close> replaced by \<^verbatim>\<open>!\<close>.
\<close>

definition possibly_scoped :: "js_string \<Rightarrow> bool" where
  "possibly_scoped b \<longleftrightarrow>
     (\<exists>rest. b = of_char CHR ''@'' # rest) \<and> of_char CHR ''!'' \<notin> set b"

definition separator :: "code_unit \<Rightarrow> bool" where
  "separator c \<longleftrightarrow> c = of_char CHR ''.'' \<or> c = of_char CHR ''#'' \<or> c = of_char CHR ''~''"

definition first_separator_replaced :: "js_string \<Rightarrow> js_string" where
  "first_separator_replaced b =
     (case dropWhile (\<lambda>c. \<not> separator c) b of
        [] \<Rightarrow> b
      | c # rest \<Rightarrow> takeWhile (\<lambda>c. \<not> separator c) b @ of_char CHR ''!'' # rest)"

text \<open>The four sources of links, and the pair of templates that reports each.\<close>

datatype link_source = InReadme | InDocument | InComment | InUnionSummary

fun suggestion_template :: "link_source \<Rightarrow> template" where
  "suggestion_template InReadme = failed_to_resolve_link_to_0_in_readme_for_1_may_have_meant_2"
| "suggestion_template InDocument = failed_to_resolve_link_to_0_in_document_1_may_have_meant_2"
| "suggestion_template InComment = failed_to_resolve_link_to_0_in_comment_for_1_may_have_meant_2"
| "suggestion_template InUnionSummary =
     failed_to_resolve_link_to_0_in_comment_for_1_may_have_meant_2"

fun plain_template :: "link_source \<Rightarrow> template" where
  "plain_template InReadme = failed_to_resolve_link_to_0_in_readme_for_1"
| "plain_template InDocument = failed_to_resolve_link_to_0_in_document_1"
| "plain_template InComment = failed_to_resolve_link_to_0_in_comment_for_1"
| "plain_template InUnionSummary = failed_to_resolve_link_to_0_in_comment_for_1"

definition with_suggestion :: "template \<Rightarrow> bool" where
  "with_suggestion t \<longleftrightarrow>
     t = failed_to_resolve_link_to_0_in_readme_for_1_may_have_meant_2 \<or>
     t = failed_to_resolve_link_to_0_in_document_1_may_have_meant_2 \<or>
     t = failed_to_resolve_link_to_0_in_comment_for_1_may_have_meant_2"

definition expected_warning :: "link_source \<Rightarrow> js_string \<Rightarrow> js_string \<Rightarrow> message" where
  "expected_warning src name b =
     (if possibly_scoped b
      then Message (suggestion_template src) [b, name, first_separator_replaced b]
      else Message (plain_template src) [b, name])"

text \<open>
  A message classifies its broken text as claimed: two arguments and a plain template for a
  text outside the heuristic, three arguments, a template with a suggestion and the
  rewritten text for a text inside it.
\<close>

definition reported_as_claimed :: "message \<Rightarrow> bool" where
  "reported_as_claimed m =
     (case args m of
        [b, name] \<Rightarrow> \<not> possibly_scoped b \<and> \<not> with_suggestion (template_of m)
      | [b, name, s] \<Rightarrow>
          possibly_scoped b \<and> with_suggestion (template_of m) \<and>
          s = first_separator_replaced b
      | _ \<Rightarrow> False)"

text \<open>The broken links of a reflection, source by source.\<close>

fun links_in :: "link_source \<Rightarrow> Reflection \<Rightarrow> js_string list" where
  "links_in InReadme r =
     (case cls r of
        ProjectReflection readme \<Rightarrow>
          getBrokenPartLinks (case readme of None \<Rightarrow> [] | Some ps \<Rightarrow> ps)
      | DeclarationReflection readme ty \<Rightarrow>
          getBrokenPartLinks (case readme of None \<Rightarrow> [] | Some ps \<Rightarrow> ps)
      | _ \<Rightarrow> [])"
| "links_in InDocument r =
     (case cls r of DocumentReflection cont \<Rightarrow> getBrokenPartLinks cont | _ \<Rightarrow> [])"
| "links_in InComment r = getBrokenLinks (comment r)"
| "links_in InUnionSummary r =
     (case cls r of
        DeclarationReflection readme (Some (UnionType (Some summaries))) \<Rightarrow>
          if kind r = TypeAlias then concat (map getBrokenPartLinks summaries) else []
      | _ \<Rightarrow> [])"

definition broken_links :: "Reflection \<Rightarrow> js_string list" where
  "broken_links r =
     concat (map (\<lambda>src. links_in src r) [InReadme, InDocument, InComment, InUnionSummary])"

definition warnings_from :: "link_source \<Rightarrow> Reflection \<Rightarrow> message list" where
  "warnings_from src r = map (expected_warning src (friendlyFullName r)) (links_in src r)"

definition warnings_of :: "Reflection \<Rightarrow> message list" where
  "warnings_of r =
     concat (map (\<lambda>src. warnings_from src r) [InReadme, InDocument, InComment, InUnionSummary])"

text \<open>
  The reflections stored under the keys of \<^verbatim>\<open>project.reflections\<close>, in the order of the
  keys, and the reflections that a traversal checks.
\<close>

definition stored :: "ProjectReflection \<Rightarrow> Reflection list" where
  "stored p = List.map_filter (map_of (reflections p)) (own_keys (reflections p))"

definition visited :: "ProjectReflection \<Rightarrow> Reflection list" where
  "visited p =
     stored p @ (if has_key (ident p) (reflections p) then [] else [Reflection.truncate p])"

text \<open>
  The data model stores every reflection under its own id. The project, when it is
  stored, is stored under its id as well.
\<close>

definition stored_by_id :: "ProjectReflection \<Rightarrow> bool" where
  "stored_by_id p \<longleftrightarrow>
     (\<forall>k r. map_of (reflections p) k = Some r \<longrightarrow>
        ident r = k \<and> (k = ident p \<longrightarrow> r = Reflection.truncate p))"

text \<open>What holds of a page between any two calls.\<close>

definition page_inv :: "'m PageEvent \<times> store \<Rightarrow> bool" where
  "page_inv s \<longleftrightarrow>
     (case s of (ev, st) \<Rightarrow>
        pageSections ev \<noteq> [] \<and>
        headings (last (pageSections ev)) = pageHeadings ev \<and>
        (\<forall>sec \<in> set (pageSections ev). headings sec < length st))"

text \<open>
  Every other part, as the specification lists them: a text part, a code part, an inline
  tag whose tag is not a link tag, and an inline tag with any other target that is not
  empty, which is a reflection or a string that is not empty.
\<close>

fun other_part :: "CommentDisplayPart \<Rightarrow> bool" where
  "other_part (TextPart tx) = True"
| "other_part (CodePart tx) = True"
| "other_part (InlineTag tg tx tgt) =
     (\<not> link_tag tg \<or>
      (case tgt of
         Some (ReflectionTarget r) \<Rightarrow> True
       | Some (StringTarget s) \<Rightarrow> s \<noteq> []
       | _ \<Rightarrow> False))"

text \<open>
  The display parts that the check of a reflection reads, source by source: the readme of
  a project or a declaration, the content of a document, the summary of the comment
  followed by the content of its block tags, and the summaries of the members of the
  union type of a type alias.
\<close>

fun checked_parts :: "link_source \<Rightarrow> Reflection \<Rightarrow> CommentDisplayPart list" where
  "checked_parts InReadme r =
     (case cls r of
        ProjectReflection readme \<Rightarrow> (case readme of None \<Rightarrow> [] | Some ps \<Rightarrow> ps)
      | DeclarationReflection readme ty \<Rightarrow> (case readme of None \<Rightarrow> [] | Some ps \<Rightarrow> ps)
      | _ \<Rightarrow> [])"
| "checked_parts InDocument r =
     (case cls r of DocumentReflection cont \<Rightarrow> cont | _ \<Rightarrow> [])"
| "checked_parts InComment r =
     (case comment r of
        None \<Rightarrow> []
      | Some c \<Rightarrow> summary c @ concat (map content (blockTags c)))"
| "checked_parts InUnionSummary r =
     (case cls r of
        DeclarationReflection readme (Some (UnionType (Some summaries))) \<Rightarrow>
          if kind r = TypeAlias then concat summaries else []
      | _ \<Rightarrow> [])"

definition link_sources :: "link_source list" where
  "link_sources = [InReadme, InDocument, InComment, InUnionSummary]"

text \<open>The trimmed texts of the parts of a list that satisfy a predicate.\<close>

definition texts_where ::
  "(CommentDisplayPart \<Rightarrow> bool) \<Rightarrow> CommentDisplayPart list \<Rightarrow> js_string list" where
  "texts_where P parts = map (\<lambda>part. trim (part_text part)) (filter P parts)"

text \<open>
  The reflections that a run reaches: the reflections stored under a key, and the project
  when its id is not a key.
\<close>

definition reached :: "ProjectReflection \<Rightarrow> Reflection \<Rightarrow> bool" where
  "reached p r \<longleftrightarrow>
     r \<in> ran (map_of (reflections p)) \<or>
     (r = Reflection.truncate p \<and> ident p \<notin> fst ` set (reflections p))"

text \<open>
  The message for a broken text in a source: the template of the source with a
  suggestion for a text inside the heuristic, the plain template of the source otherwise.
\<close>

definition readme_message :: "js_string \<Rightarrow> js_string \<Rightarrow> message" where
  "readme_message name b =
     (if possibly_scoped b
      then Message failed_to_resolve_link_to_0_in_readme_for_1_may_have_meant_2
             [b, name, first_separator_replaced b]
      else Message failed_to_resolve_link_to_0_in_readme_for_1 [b, name])"

definition document_message :: "js_string \<Rightarrow> js_string \<Rightarrow> message" where
  "document_message name b =
     (if possibly_scoped b
      then Message failed_to_resolve_link_to_0_in_document_1_may_have_meant_2
             [b, name, first_separator_replaced b]
      else Message failed_to_resolve_link_to_0_in_document_1 [b, name])"

definition comment_message :: "js_string \<Rightarrow> js_string \<Rightarrow> message" where
  "comment_message name b =
     (if possibly_scoped b
      then Message failed_to_resolve_link_to_0_in_comment_for_1_may_have_meant_2
             [b, name, first_separator_replaced b]
      else Message failed_to_resolve_link_to_0_in_comment_for_1 [b, name])"

section \<open>Example inputs\<close>

definition scoped_link :: CommentDisplayPart where
  "scoped_link = InlineTag (lit ''@link'') (lit ''@scope/pkg.Thing'') None"

definition bare_scope_link :: CommentDisplayPart where
  "bare_scope_link = InlineTag (lit ''@linkcode'') (lit ''@scope'') (Some ReflectionSymbolId)"

definition foo_link :: CommentDisplayPart where
  "foo_link = InlineTag (lit ''@link'') (lit '' Foo.Bar '') None"

definition resolved_link :: CommentDisplayPart where
  "resolved_link = InlineTag (lit ''@link'') (lit ''Thing'') (Some (ReflectionTarget 4))"

definition empty_target_link :: CommentDisplayPart where
  "empty_target_link = InlineTag (lit ''@link'') (lit ''Foo'') (Some (StringTarget []))"

definition thing :: Reflection where
  "thing =
     \<lparr>ident = 4, kind = Class,
      comment = Some \<lparr>summary = [TextPart (lit ''See ''), scoped_link],
                      blockTags = [\<lparr>content = [resolved_link]\<rparr>]\<rparr>,
      friendlyFullName = lit ''Thing'', cls = DeclarationReflection None None\<rparr>"

definition guide :: Reflection where
  "guide =
     \<lparr>ident = 2, kind = Document, comment = None, friendlyFullName = lit ''Guide'',
      cls = DocumentReflection [resolved_link, CodePart (lit ''x'')]\<rparr>"

text \<open>A project that is not a key of its own \<^verbatim>\<open>reflections\<close>.\<close>

definition demo_project :: ProjectReflection where
  "demo_project =
     \<lparr>ident = 0, kind = Project, comment = None, friendlyFullName = lit ''demo'',
      cls = ProjectReflection None, reflections = [(4, thing)]\<rparr>"

text \<open>A project that is stored under its own id, next to two reflections.\<close>

definition registered_project :: ProjectReflection where
  "registered_project =
     \<lparr>ident = 0, kind = Project, comment = None, friendlyFullName = lit ''demo'',
      cls = ProjectReflection None,
      reflections =
        [(0, \<lparr>ident = 0, kind = Project, comment = None, friendlyFullName = lit ''demo'',
              cls = ProjectReflection None\<rparr>),
         (4, thing), (2, guide)]\<rparr>"

text \<open>A project without a broken link.\<close>

definition quiet_project :: ProjectReflection where
  "quiet_project =
     \<lparr>ident = 0, kind = Project, comment = None, friendlyFullName = lit ''quiet'',
      cls = ProjectReflection (Some [TextPart (lit ''Hello''), resolved_link]),
      reflections = [(2, guide)]\<rparr>"

text \<open>
  A type alias of a union type with a broken link in the summary of a member, and the
  same alias with the link in its comment instead.
\<close>

definition union_alias :: Reflection where
  "union_alias =
     \<lparr>ident = 3, kind = TypeAlias, comment = None, friendlyFullName = lit ''Alias'',
      cls = DeclarationReflection None
              (Some (UnionType (Some [[], [InlineTag (lit ''@link'') (lit ''Foo'') None]])))\<rparr>"

definition commented_alias :: Reflection where
  "commented_alias =
     \<lparr>ident = 3, kind = TypeAlias, comment =
        Some \<lparr>summary = [InlineTag (lit ''@link'') (lit ''Foo'') None], blockTags = []\<rparr>,
      friendlyFullName = lit ''Alias'',
      cls = DeclarationReflection None (Some (UnionType None))\<rparr>"

definition heading :: "nat \<Rightarrow> PageHeading" where
  "heading n =
     \<lparr>link = lit ''#h'', heading_text = lit ''h'', level = Some (int n), heading_kind = None,
      classes = None\<rparr>"

text \<open>A declaration with a broken link in its readme, and a document with one in its content.\<close>

definition package_decl :: Reflection where
  "package_decl =
     \<lparr>ident = 5, kind = Module, comment = None, friendlyFullName = lit ''pkg'',
      cls = DeclarationReflection (Some [scoped_link, resolved_link]) None\<rparr>"

definition broken_guide :: Reflection where
  "broken_guide =
     \<lparr>ident = 6, kind = Document, comment = None, friendlyFullName = lit ''Broken'',
      cls = DocumentReflection [TextPart (lit ''See ''), foo_link]\<rparr>"

text \<open>A project with a declaration whose comment links to a bare scope.\<close>

definition scope_user :: Reflection where
  "scope_user =
     \<lparr>ident = 7, kind = Function,
      comment = Some \<lparr>summary = [], blockTags = [\<lparr>content = [bare_scope_link]\<rparr>]\<rparr>,
      friendlyFullName = lit ''User'', cls = DeclarationReflection None None\<rparr>"

definition scope_project :: ProjectReflection where
  "scope_project =
     \<lparr>ident = 0, kind = Project, comment = None, friendlyFullName = lit ''scoped'',
      cls = ProjectReflection None, reflections = [(7, scope_user)]\<rparr>"

section \<open>Strings\<close>

lemma lit_single: "lit [c] = [of_char c]"
  by (simp add: lit_def)

lemma startsWith_at: "startsWith b (lit ''@'') \<longleftrightarrow> (\<exists>rest. b = of_char CHR ''@'' # rest)"
  by (cases b) (auto simp: startsWith_def lit_def)

lemma includes_str_single: "includes_str b [c] \<longleftrightarrow> c \<in> set b"
  by (induction b) (auto simp: startsWith_def)

lemma suggests_iff:
  "startsWith b (lit ''@'') \<and> \<not> includes_str b (lit ''!'') \<longleftrightarrow> possibly_scoped b"
proof -
  have "lit ''!'' = [of_char CHR ''!'']" by (rule lit_single)
  then show ?thesis by (simp add: startsWith_at includes_str_single possibly_scoped_def)
qed

lemma separator_class: "c \<in> set (lit ''.#~'') \<longleftrightarrow> separator c"
  by (auto simp: lit_def separator_def)

lemma replace_class_separator:
  "replace_class (lit ''.#~'') (lit ''!'') b = first_separator_replaced b"
proof (induction b)
  case Nil
  show ?case by (simp add: first_separator_replaced_def)
next
  case (Cons c cs)
  note IH = Cons.IH
  show ?case
  proof (cases "separator c")
    case True
    then show ?thesis
      by (simp add: separator_class first_separator_replaced_def lit_single)
  next
    case False
    show ?thesis
    proof (cases "dropWhile (\<lambda>c. \<not> separator c) cs")
      case Nil
      with False IH show ?thesis
        by (simp add: separator_class first_separator_replaced_def del: dropWhile_eq_Nil_conv)
    next
      case (Cons d ds)
      with False IH show ?thesis
        by (simp add: separator_class first_separator_replaced_def del: dropWhile_eq_Nil_conv)
    qed
  qed
qed

lemma no_separator_unchanged:
  assumes "\<forall>c \<in> set b. \<not> separator c"
  shows "first_separator_replaced b = b"
proof -
  from assms have "dropWhile (\<lambda>c. \<not> separator c) b = []" by simp
  then show ?thesis by (simp only: first_separator_replaced_def list.case)
qed

section \<open>Extraction\<close>

lemma fold_push:
  "fold (\<lambda>x acc. if P x then acc @ [f x] else acc) xs acc = acc @ map f (filter P xs)"
  by (induction xs arbitrary: acc) simp_all

lemma fold_append_each: "fold (\<lambda>x acc. acc @ g x) xs acc = acc @ concat (map g xs)"
  by (induction xs arbitrary: acc) simp_all

lemma getBrokenPartLinks_filter:
  "getBrokenPartLinks parts = map (\<lambda>p. trim (part_text p)) (filter pushes_link parts)"
  by (simp add: getBrokenPartLinks_def fold_push)

lemma pushes_link_iff: "pushes_link p = broken_link_part p"
proof (cases p)
  case (InlineTag tg tx tgt)
  have "falsy tgt \<or> instanceof_ReflectionSymbolId tgt \<longleftrightarrow>
        tgt = None \<or> tgt = Some (StringTarget []) \<or> tgt = Some ReflectionSymbolId"
    by (cases tgt rule: falsy.cases) auto
  with InlineTag show ?thesis by (auto simp: linkTags_def link_tag_def)
qed simp_all

lemma filter_pushes_link: "filter pushes_link parts = filter broken_link_part parts"
  by (rule filter_cong) (simp_all add: pushes_link_iff)

section \<open>The check of one reflection\<close>

lemma readme_body_eq:
  "readme_body r b l = l @ [expected_warning InReadme (friendlyFullName r) b]"
  using suggests_iff [of b]
  by (simp add: readme_body_def expected_warning_def warn_def replace_class_separator)

lemma document_body_eq:
  "document_body r b l = l @ [expected_warning InDocument (friendlyFullName r) b]"
  using suggests_iff [of b]
  by (simp add: document_body_def expected_warning_def warn_def replace_class_separator)

lemma comment_body_eq:
  "comment_body r b l = l @ [expected_warning InComment (friendlyFullName r) b]"
  using suggests_iff [of b]
  by (simp add: comment_body_def expected_warning_def warn_def replace_class_separator)

lemma union_body_eq:
  "union_body r b l = l @ [expected_warning InUnionSummary (friendlyFullName r) b]"
  using suggests_iff [of b]
  by (simp add: union_body_def expected_warning_def warn_def replace_class_separator)

lemma fold_emit:
  assumes "\<And>b l. body b l = l @ [f b]"
  shows "fold body bs l = l @ map f bs"
  by (induction bs arbitrary: l) (simp_all add: assms)

lemma check_readme_eq: "check_readme r l = l @ warnings_from InReadme r"
  by (simp add: check_readme_def warnings_from_def fold_emit [OF readme_body_eq]
      split: ReflectionClass.splits)

lemma check_document_eq: "check_document r l = l @ warnings_from InDocument r"
  by (simp add: check_document_def warnings_from_def fold_emit [OF document_body_eq]
      split: ReflectionClass.splits)

lemma check_comment_eq: "check_comment r l = l @ warnings_from InComment r"
  by (simp add: check_comment_def warnings_from_def fold_emit [OF comment_body_eq])

lemma check_union_eq: "check_union r l = l @ warnings_from InUnionSummary r"
  by (simp add: check_union_def warnings_from_def kindOf_def fold_emit [OF union_body_eq]
      split: ReflectionClass.splits option.splits SomeType.splits)

lemma checkReflection_eq: "checkReflection r l = l @ warnings_of r"
  by (simp add: checkReflection_def warnings_of_def check_readme_eq check_document_eq
      check_comment_eq check_union_eq)

lemma fold_checkReflection: "fold checkReflection rs l = l @ concat (map warnings_of rs)"
  by (induction rs arbitrary: l) (simp_all add: checkReflection_eq)

lemma template_of_expected:
  "template_of (expected_warning src name b) \<in> {suggestion_template src, plain_template src}"
  by (simp add: expected_warning_def)

lemma templates_from:
  "template_of ` set (warnings_from src r) \<subseteq> {suggestion_template src, plain_template src}"
  using template_of_expected by (auto simp: warnings_from_def)

lemma expected_warning_as_claimed: "reported_as_claimed (expected_warning src name b)"
  by (cases src) (simp_all add: reported_as_claimed_def expected_warning_def with_suggestion_def)

lemma warnings_of_as_claimed: "m \<in> set (warnings_of r) \<Longrightarrow> reported_as_claimed m"
  by (auto simp: warnings_of_def warnings_from_def expected_warning_as_claimed)

lemma arg0_expected: "hd (args (expected_warning src name b)) = b"
  by (simp add: expected_warning_def)

lemma arg0_warnings_of: "map (\<lambda>m. hd (args m)) (warnings_of r) = broken_links r"
  by (simp add: warnings_of_def warnings_from_def broken_links_def comp_def arg0_expected)

section \<open>The traversal\<close>

lemma for_in_fold:
  "set ks \<subseteq> fst ` set obj \<Longrightarrow>
   for_in check obj ks l = Inr (fold check (List.map_filter (map_of obj) ks) l)"
proof (induction ks arbitrary: l)
  case Nil
  show ?case by (simp add: List.map_filter_simps)
next
  case (Cons k ks)
  from Cons.prems have "map_of obj k \<noteq> None"
    by (simp add: map_of_eq_None_iff)
  then obtain r where r: "map_of obj k = Some r"
    by blast
  from Cons show ?case by (simp add: r List.map_filter_simps)
qed

lemma set_own_keys: "set (own_keys obj) = fst ` set obj"
  by (simp add: own_keys_def)

lemma distinct_own_keys: "distinct (own_keys obj)"
  by (simp add: own_keys_def)

lemma validateLinks_with_eq:
  "validateLinks_with check p l = Inr (fold check (visited p) l)"
  by (simp add: validateLinks_with_def for_in_fold set_own_keys visited_def stored_def)

lemma validateLinks_eq:
  "validateLinks p l = Inr (l @ concat (map warnings_of (visited p)))"
  by (simp add: validateLinks_def validateLinks_with_eq fold_checkReflection)

lemma map_filter_all_Some:
  "\<forall>k \<in> set ks. f k \<noteq> None \<Longrightarrow> map Some (List.map_filter f ks) = map f ks"
  by (induction ks) (auto simp: List.map_filter_simps)

lemma stored_lookup:
  "map Some (stored p) = map (map_of (reflections p)) (own_keys (reflections p))"
  unfolding stored_def
  by (rule map_filter_all_Some) (simp add: set_own_keys map_of_eq_None_iff)

lemma map_filter_keys:
  "\<forall>k \<in> set ks. \<exists>r. f k = Some r \<and> g r = k \<Longrightarrow> map g (List.map_filter f ks) = ks"
  by (induction ks) (auto simp: List.map_filter_simps)

lemma set_map_filter: "set (List.map_filter f ks) = {r. \<exists>k \<in> set ks. f k = Some r}"
  by (induction ks) (auto simp: List.map_filter_simps split: option.splits)

lemma set_stored: "set (stored p) = ran (map_of (reflections p))"
proof -
  have "\<And>k r. map_of (reflections p) k = Some r \<Longrightarrow> k \<in> fst ` set (reflections p)"
    by (force dest: map_of_SomeD)
  then show ?thesis
    by (auto simp: stored_def set_map_filter set_own_keys ran_def)
qed

lemma ident_stored:
  assumes "stored_by_id p"
  shows "map ident (stored p) = own_keys (reflections p)"
  unfolding stored_def
proof (rule map_filter_keys, rule ballI)
  fix k assume "k \<in> set (own_keys (reflections p))"
  then have "map_of (reflections p) k \<noteq> None"
    by (simp add: set_own_keys map_of_eq_None_iff)
  then obtain r where "map_of (reflections p) k = Some r" by blast
  with assms show "\<exists>r. map_of (reflections p) k = Some r \<and> ident r = k"
    by (auto simp: stored_by_id_def)
qed

lemma distinct_stored: "stored_by_id p \<Longrightarrow> distinct (stored p)"
  using distinct_own_keys [of "reflections p"] ident_stored [of p]
  by (metis distinct_map)

lemma count_list_distinct: "distinct xs \<Longrightarrow> x \<in> set xs \<Longrightarrow> count_list xs x = 1"
  by (induction xs) auto

lemma count_list_notin: "x \<notin> set xs \<Longrightarrow> count_list xs x = 0"
  by (induction xs) auto

lemma root_stored_iff:
  assumes "stored_by_id p"
  shows "Reflection.truncate p \<in> set (stored p) \<longleftrightarrow> has_key (ident p) (reflections p)"
proof
  assume "Reflection.truncate p \<in> set (stored p)"
  then obtain k where k: "map_of (reflections p) k = Some (Reflection.truncate p)"
    by (auto simp: set_stored ran_def)
  with assms have "ident (Reflection.truncate p) = k" by (simp add: stored_by_id_def)
  then have "k = ident p" by (simp add: Reflection.truncate_def)
  with k show "has_key (ident p) (reflections p)"
    by (metis has_key_def map_of_eq_None_iff option.distinct(1))
next
  assume "has_key (ident p) (reflections p)"
  then have "map_of (reflections p) (ident p) \<noteq> None"
    by (simp add: has_key_def map_of_eq_None_iff)
  then obtain r where r: "map_of (reflections p) (ident p) = Some r" by blast
  with assms have "r = Reflection.truncate p" by (simp add: stored_by_id_def)
  with r show "Reflection.truncate p \<in> set (stored p)"
    by (auto simp: set_stored ran_def)
qed

lemma visited_once:
  assumes "stored_by_id p"
    and "r \<in> ran (map_of (reflections p)) \<or> r = Reflection.truncate p"
  shows "count_list (visited p) r = 1"
proof (cases "has_key (ident p) (reflections p)")
  case True
  with assms have "r \<in> set (stored p)"
    by (auto simp: set_stored root_stored_iff [symmetric])
  with True assms(1) show ?thesis
    by (simp add: visited_def count_list_distinct distinct_stored)
next
  case False
  with assms(1) have root: "Reflection.truncate p \<notin> set (stored p)"
    by (simp add: root_stored_iff)
  show ?thesis
  proof (cases "r = Reflection.truncate p")
    case True
    with False root show ?thesis by (simp add: visited_def count_list_notin)
  next
    case neq: False
    with assms(2) have "r \<in> set (stored p)" by (simp add: set_stored)
    with False neq assms(1) show ?thesis
      by (simp add: visited_def count_list_distinct distinct_stored)
  qed
qed

section \<open>Pages and the index\<close>

lemma page_inv_new: "page_inv (new_PageEvent m st)"
  by (simp add: page_inv_def new_PageEvent_def Let_def)

lemma page_inv_start: "page_inv s \<Longrightarrow> page_inv (startNewSection t s)"
  by (cases s) (auto simp: page_inv_def startNewSection_def Let_def)

lemma page_inv_push: "page_inv s \<Longrightarrow> page_inv (pushHeading h s)"
  by (cases s) (auto simp: page_inv_def pushHeading_def)

lemma page_inv_call: "page_inv s \<Longrightarrow> page_inv (do_call c s)"
  by (cases c) (simp_all add: page_inv_start page_inv_push)

lemma page_inv_fold: "page_inv s \<Longrightarrow> page_inv (fold do_call calls s)"
  by (induction calls arbitrary: s) (simp_all add: page_inv_call)

lemma page_inv_after: "page_inv (page_after m st calls)"
  by (simp add: page_after_def page_inv_fold page_inv_new)

lemma splice_one:
  assumes "0 \<le> k" and "k < int (length xs)"
  shows "splice k 1 xs = take (nat k) xs @ drop (Suc (nat k)) xs"
proof -
  from assms have "nat (k + 1) = Suc (nat k)" by simp
  with assms show ?thesis by (simp add: splice_def Let_def min_def max_def)
qed

lemma splice_aligned:
  "length xs = length ys \<Longrightarrow> length (splice k d xs) = length (splice k d ys)"
  by (simp add: splice_def Let_def)

lemma remove_nth_length:
  "k < length xs \<Longrightarrow> length (take k xs @ drop (Suc k) xs) = length xs - 1"
  by simp

lemma remove_nth_before:
  "i < k \<Longrightarrow> k < length xs \<Longrightarrow> (take k xs @ drop (Suc k) xs) ! i = xs ! i"
  by (simp add: nth_append)

lemma remove_nth_after:
  "k \<le> i \<Longrightarrow> i < length xs - 1 \<Longrightarrow> k < length xs \<Longrightarrow>
   (take k xs @ drop (Suc k) xs) ! i = xs ! Suc i"
  by (simp add: nth_append min_def)

lemma built_in_fields_distinct:
  "lit ''name'' \<noteq> lit ''comment''" "lit ''name'' \<noteq> lit ''document''"
  "lit ''comment'' \<noteq> lit ''document''"
  by (simp_all add: lit_def)

lemma empty_records:
  "map (\<lambda>_. Map.empty) [0 ..< n] = replicate n (Map.empty :: js_string \<rightharpoonup> js_string)"
  by (induction n) (simp_all add: replicate_append_same)

section \<open>The example inputs, evaluated\<close>

lemmas string_eval = lit_def trim_def isWhiteSpace_def startsWith_def linkTags_def

lemmas part_eval =
  scoped_link_def bare_scope_link_def foo_link_def resolved_link_def empty_target_link_def

lemmas check_eval =
  checkReflection_def check_readme_def check_document_def check_comment_def check_union_def

lemma no_links: "getBrokenPartLinks [] = []"
  by (simp add: getBrokenPartLinks_def)

lemma thing_fields:
  "comment thing = Some \<lparr>summary = [TextPart (lit ''See ''), scoped_link],
                          blockTags = [\<lparr>content = [resolved_link]\<rparr>]\<rparr>"
  "friendlyFullName thing = lit ''Thing''" "cls thing = DeclarationReflection None None"
  "kind thing = Class" "ident thing = 4"
  by (simp_all add: thing_def)

lemma thing_links: "getBrokenLinks (comment thing) = [lit ''@scope/pkg.Thing'']"
  by (simp add: thing_fields getBrokenLinks_def getBrokenPartLinks_def part_eval string_eval)

lemma thing_warning:
  "comment_body thing (lit ''@scope/pkg.Thing'') l =
     l @ [Message failed_to_resolve_link_to_0_in_comment_for_1_may_have_meant_2
            [lit ''@scope/pkg.Thing'', lit ''Thing'', lit ''@scope/pkg!Thing'']]"
  by (simp add: comment_body_def warn_def thing_fields string_eval)

lemma checkReflection_thing:
  "checkReflection thing l =
     l @ [Message failed_to_resolve_link_to_0_in_comment_for_1_may_have_meant_2
            [lit ''@scope/pkg.Thing'', lit ''Thing'', lit ''@scope/pkg!Thing'']]"
  by (simp add: check_eval thing_fields(3) thing_links thing_warning no_links)

lemma demo_root_fields:
  "comment (Reflection.truncate demo_project) = None"
  "cls (Reflection.truncate demo_project) = ProjectReflection None"
  "ident (Reflection.truncate demo_project) = 0"
  by (simp_all add: demo_project_def Reflection.truncate_def)

lemma checkReflection_demo_root: "checkReflection (Reflection.truncate demo_project) l = l"
  by (simp add: check_eval demo_root_fields getBrokenLinks_def no_links)

lemma demo_traversal:
  "own_keys (reflections demo_project) = [4]" "map_of (reflections demo_project) 4 = Some thing"
  "\<not> has_key (ident demo_project) (reflections demo_project)"
  by (simp_all add: demo_project_def own_keys_def has_key_def)

lemma validateLinks_demo:
  "validateLinks demo_project [] =
     Inr [Message failed_to_resolve_link_to_0_in_comment_for_1_may_have_meant_2
            [lit ''@scope/pkg.Thing'', lit ''Thing'', lit ''@scope/pkg!Thing'']]"
  by (simp add: validateLinks_def validateLinks_with_def demo_traversal
      checkReflection_thing checkReflection_demo_root)

lemma stored_demo: "stored demo_project = [thing]"
  by (simp add: stored_def demo_traversal List.map_filter_simps)

lemma visited_demo: "visited demo_project = [thing, Reflection.truncate demo_project]"
  by (simp add: visited_def stored_demo demo_traversal)

lemma guide_fields:
  "comment guide = None" "cls guide = DocumentReflection [resolved_link, CodePart (lit ''x'')]"
  "ident guide = 2"
  by (simp_all add: guide_def)

lemma guide_links: "getBrokenPartLinks [resolved_link, CodePart (lit ''x'')] = []"
  by (simp add: getBrokenPartLinks_def resolved_link_def)

lemma registered_traversal:
  "own_keys (reflections registered_project) = [0, 2, 4]"
  "map_of (reflections registered_project) 0 = Some (Reflection.truncate registered_project)"
  "map_of (reflections registered_project) 2 = Some guide"
  "map_of (reflections registered_project) 4 = Some thing"
  "has_key (ident registered_project) (reflections registered_project)"
  "ident (Reflection.truncate registered_project) = 0"
  by (simp_all add: registered_project_def own_keys_def has_key_def Reflection.truncate_def)

lemma quiet_traversal:
  "own_keys (reflections quiet_project) = [2]"
  "map_of (reflections quiet_project) 2 = Some guide"
  "\<not> has_key (ident quiet_project) (reflections quiet_project)"
  "comment (Reflection.truncate quiet_project) = None"
  "cls (Reflection.truncate quiet_project) =
     ProjectReflection (Some [TextPart (lit ''Hello''), resolved_link])"
  by (simp_all add: quiet_project_def own_keys_def has_key_def Reflection.truncate_def)

lemma quiet_links: "getBrokenPartLinks [TextPart (lit ''Hello''), resolved_link] = []"
  by (simp add: getBrokenPartLinks_def resolved_link_def)

lemma visited_quiet: "visited quiet_project = [guide, Reflection.truncate quiet_project]"
  by (simp add: visited_def stored_def quiet_traversal List.map_filter_simps)

lemma broken_links_quiet:
  "broken_links guide = []" "broken_links (Reflection.truncate quiet_project) = []"
  by (simp_all add: broken_links_def guide_fields guide_links quiet_traversal quiet_links
      getBrokenLinks_def)

lemma alias_fields:
  "comment union_alias = None" "friendlyFullName union_alias = lit ''Alias''"
  "kind union_alias = TypeAlias"
  "cls union_alias = DeclarationReflection None
     (Some (UnionType (Some [[], [InlineTag (lit ''@link'') (lit ''Foo'') None]])))"
  "comment commented_alias =
     Some \<lparr>summary = [InlineTag (lit ''@link'') (lit ''Foo'') None], blockTags = []\<rparr>"
  "friendlyFullName commented_alias = lit ''Alias''"
  "cls commented_alias = DeclarationReflection None (Some (UnionType None))"
  by (simp_all add: union_alias_def commented_alias_def)

lemma foo_links: "getBrokenPartLinks [InlineTag (lit ''@link'') (lit ''Foo'') None] = [lit ''Foo'']"
  by (simp add: getBrokenPartLinks_def string_eval)

lemma foo_warnings:
  "union_body union_alias (lit ''Foo'') l =
     l @ [Message failed_to_resolve_link_to_0_in_comment_for_1 [lit ''Foo'', lit ''Alias'']]"
  "comment_body commented_alias (lit ''Foo'') l =
     l @ [Message failed_to_resolve_link_to_0_in_comment_for_1 [lit ''Foo'', lit ''Alias'']]"
  by (simp_all add: union_body_def comment_body_def warn_def alias_fields string_eval)

lemma check_union_alias:
  "check_union union_alias [] =
     [Message failed_to_resolve_link_to_0_in_comment_for_1 [lit ''Foo'', lit ''Alias'']]"
  by (simp add: check_union_def kindOf_def alias_fields no_links foo_links foo_warnings)

lemma checkReflection_union_alias:
  "checkReflection union_alias [] =
     [Message failed_to_resolve_link_to_0_in_comment_for_1 [lit ''Foo'', lit ''Alias'']]"
  by (simp add: checkReflection_def check_readme_def check_document_def check_comment_def
      check_union_alias alias_fields no_links getBrokenLinks_def)

lemma checkReflection_commented_alias:
  "checkReflection commented_alias [] =
     [Message failed_to_resolve_link_to_0_in_comment_for_1 [lit ''Foo'', lit ''Alias'']]"
  by (simp add: check_eval alias_fields no_links foo_links foo_warnings getBrokenLinks_def)

section \<open>The parts behind the links\<close>

lemma texts_where_Nil: "texts_where P [] = []"
  by (simp add: texts_where_def)

lemma texts_where_append: "texts_where P (xs @ ys) = texts_where P xs @ texts_where P ys"
  by (simp add: texts_where_def)

lemma texts_where_concat: "texts_where P (concat xss) = concat (map (texts_where P) xss)"
  by (induction xss) (simp_all add: texts_where_def)

lemma getBrokenPartLinks_texts: "getBrokenPartLinks parts = texts_where broken_link_part parts"
  by (simp add: getBrokenPartLinks_filter filter_pushes_link texts_where_def)

lemma getBrokenPartLinks_append:
  "getBrokenPartLinks (xs @ ys) = getBrokenPartLinks xs @ getBrokenPartLinks ys"
  by (simp add: getBrokenPartLinks_texts texts_where_append)

lemma links_in_parts: "links_in src r = texts_where broken_link_part (checked_parts src r)"
proof (cases src)
  case InReadme
  then show ?thesis
    by (simp add: getBrokenPartLinks_texts texts_where_Nil
        split: ReflectionClass.splits option.splits)
next
  case InDocument
  then show ?thesis
    by (simp add: getBrokenPartLinks_texts texts_where_Nil split: ReflectionClass.splits)
next
  case InComment
  have tags: "concat (map (\<lambda>tag. texts_where broken_link_part (content tag)) tags) =
      texts_where broken_link_part (concat (map content tags))" for tags
    by (simp add: texts_where_concat comp_def)
  from InComment show ?thesis
    by (simp add: tags getBrokenLinks_def fold_append_each getBrokenPartLinks_texts
        texts_where_append texts_where_Nil split: option.splits)
next
  case InUnionSummary
  have sums: "concat (map getBrokenPartLinks sums) = texts_where broken_link_part (concat sums)"
    for sums
    by (simp add: texts_where_concat getBrokenPartLinks_texts [abs_def])
  from InUnionSummary show ?thesis
    by (simp add: sums texts_where_Nil
        split: ReflectionClass.splits option.splits SomeType.splits)
qed

lemma broken_links_parts:
  "broken_links r =
     concat (map (\<lambda>src. texts_where broken_link_part (checked_parts src r)) link_sources)"
  by (simp add: broken_links_def link_sources_def links_in_parts)

lemma broken_as_claimed_broken: "broken_as_claimed part \<Longrightarrow> broken_link_part part"
  by (cases part) auto

lemma other_part_not_broken: "other_part part \<Longrightarrow> \<not> broken_link_part part"
  by (cases part) (auto split: option.splits LinkTarget.splits)

lemma broken_iff_not_other: "broken_link_part part \<longleftrightarrow> \<not> other_part part"
  by (cases part) (auto split: option.splits LinkTarget.splits)

lemma classified_filter:
  assumes "\<forall>part \<in> set parts. broken_as_claimed part \<or> other_part part"
  shows "filter broken_link_part parts = filter broken_as_claimed parts"
proof (rule filter_cong)
  fix part assume "part \<in> set parts"
  with assms have "broken_as_claimed part \<or> other_part part" by blast
  then show "broken_link_part part = broken_as_claimed part"
    using broken_as_claimed_broken other_part_not_broken by blast
qed simp

lemma classified_texts:
  "\<forall>part \<in> set parts. broken_as_claimed part \<or> other_part part \<Longrightarrow>
   texts_where broken_link_part parts = texts_where broken_as_claimed parts"
  by (simp add: texts_where_def classified_filter)

lemma other_texts:
  "\<forall>part \<in> set parts. other_part part \<Longrightarrow> texts_where broken_link_part parts = []"
  by (simp add: texts_where_def other_part_not_broken)

lemma set_visited: "set (visited p) = {r. reached p r}"
  by (auto simp: visited_def set_stored reached_def has_key_def)

lemma expected_by_source:
  "expected_warning InReadme name b = readme_message name b"
  "expected_warning InDocument name b = document_message name b"
  "expected_warning InComment name b = comment_message name b"
  "expected_warning InUnionSummary name b = comment_message name b"
  by (simp_all add: expected_warning_def readme_message_def document_message_def
      comment_message_def)

lemma arg0_run:
  "map (\<lambda>m. hd (args m)) (concat (map warnings_of rs)) = concat (map broken_links rs)"
  by (simp add: map_concat comp_def arg0_warnings_of)

section \<open>The validator on a heap\<close>

lemma fold_on:
  assumes "\<And>b h. body_on b h = h\<lparr>heap_logger := body b (heap_logger h)\<rparr>"
  shows "fold body_on bs h = h\<lparr>heap_logger := fold body bs (heap_logger h)\<rparr>"
  by (induction bs arbitrary: h) (simp_all add: assms)

lemma readme_body_on_eq:
  "readme_body_on r b h = h\<lparr>heap_logger := readme_body r b (heap_logger h)\<rparr>"
  by (simp add: readme_body_on_def readme_body_def logger_warn_def)

lemma document_body_on_eq:
  "document_body_on r b h = h\<lparr>heap_logger := document_body r b (heap_logger h)\<rparr>"
  by (simp add: document_body_on_def document_body_def logger_warn_def)

lemma comment_body_on_eq:
  "comment_body_on r b h = h\<lparr>heap_logger := comment_body r b (heap_logger h)\<rparr>"
  by (simp add: comment_body_on_def comment_body_def logger_warn_def)

lemma union_body_on_eq:
  "union_body_on r b h = h\<lparr>heap_logger := union_body r b (heap_logger h)\<rparr>"
  by (simp add: union_body_on_def union_body_def logger_warn_def)

lemma check_readme_on_eq:
  "check_readme_on r h = h\<lparr>heap_logger := check_readme r (heap_logger h)\<rparr>"
  by (simp add: check_readme_on_def check_readme_def fold_on [where body_on = "readme_body_on r" and body = "readme_body r", OF readme_body_on_eq]
      split: ReflectionClass.splits)

lemma check_document_on_eq:
  "check_document_on r h = h\<lparr>heap_logger := check_document r (heap_logger h)\<rparr>"
  by (simp add: check_document_on_def check_document_def fold_on [where body_on = "document_body_on r" and body = "document_body r", OF document_body_on_eq]
      split: ReflectionClass.splits)

lemma check_comment_on_eq:
  "check_comment_on r h = h\<lparr>heap_logger := check_comment r (heap_logger h)\<rparr>"
  by (simp add: check_comment_on_def check_comment_def fold_on [where body_on = "comment_body_on r" and body = "comment_body r", OF comment_body_on_eq])

lemma check_union_on_eq:
  "check_union_on r h = h\<lparr>heap_logger := check_union r (heap_logger h)\<rparr>"
  by (simp add: check_union_on_def check_union_def fold_on [where body_on = "union_body_on r" and body = "union_body r", OF union_body_on_eq]
      split: ReflectionClass.splits option.splits SomeType.splits)

lemma checkReflection_on_eq:
  "checkReflection_on r h = h\<lparr>heap_logger := checkReflection r (heap_logger h)\<rparr>"
  by (simp add: checkReflection_on_def checkReflection_def check_readme_on_eq
      check_document_on_eq check_comment_on_eq check_union_on_eq)

lemma for_in_on_eq:
  "for_in_on ks h =
     (case for_in checkReflection (reflections (heap_project h)) ks (heap_logger h) of
        Inl e \<Rightarrow> Inl e
      | Inr logger \<Rightarrow> Inr (h\<lparr>heap_logger := logger\<rparr>))"
proof (induction ks arbitrary: h)
  case Nil
  show ?case by simp
next
  case (Cons k ks)
  show ?case
  proof (cases "map_of (reflections (heap_project h)) k")
    case None
    then show ?thesis by simp
  next
    case (Some r)
    then show ?thesis
      by (simp add: Cons.IH checkReflection_on_eq split: sum.splits)
  qed
qed

lemma validateLinks_on_eq:
  "validateLinks_on h =
     (case validateLinks (heap_project h) (heap_logger h) of
        Inl e \<Rightarrow> Inl e
      | Inr logger \<Rightarrow> Inr (h\<lparr>heap_logger := logger\<rparr>))"
proof (cases "for_in checkReflection (reflections (heap_project h))
    (own_keys (reflections (heap_project h))) (heap_logger h)")
  case (Inl e)
  then show ?thesis
    by (simp add: validateLinks_on_def validateLinks_def validateLinks_with_def for_in_on_eq)
next
  case (Inr logger)
  then show ?thesis
    by (simp add: validateLinks_on_def validateLinks_def validateLinks_with_def for_in_on_eq
        checkReflection_on_eq)
qed

lemma validateLinks_on_run:
  "validateLinks_on h =
     Inr (h\<lparr>heap_logger :=
            heap_logger h @ concat (map warnings_of (visited (heap_project h)))\<rparr>)"
  by (simp add: validateLinks_on_eq validateLinks_eq)

lemma checkReflection_guide: "checkReflection guide l = l"
  by (simp add: check_eval guide_fields guide_links getBrokenLinks_def)

lemma registered_root_fields:
  "comment (Reflection.truncate registered_project) = None"
  "cls (Reflection.truncate registered_project) = ProjectReflection None"
  by (simp_all add: registered_project_def Reflection.truncate_def)

lemma checkReflection_registered_root:
  "checkReflection (Reflection.truncate registered_project) l = l"
  by (simp add: check_eval registered_root_fields getBrokenLinks_def no_links)

lemma validateLinks_registered:
  "validateLinks registered_project [] =
     Inr [Message failed_to_resolve_link_to_0_in_comment_for_1_may_have_meant_2
            [lit ''@scope/pkg.Thing'', lit ''Thing'', lit ''@scope/pkg!Thing'']]"
  by (simp add: validateLinks_def validateLinks_with_def registered_traversal
      checkReflection_registered_root checkReflection_guide checkReflection_thing)

lemma validateLinks_quiet: "validateLinks quiet_project [] = Inr []"
proof -
  have "checkReflection (Reflection.truncate quiet_project) l = l" for l
    by (simp add: check_eval quiet_traversal quiet_links getBrokenLinks_def)
  then show ?thesis
    by (simp add: validateLinks_def validateLinks_with_def quiet_traversal
        checkReflection_guide)
qed

lemma scoped_text:
  "possibly_scoped (lit ''@scope/pkg.Thing'')"
  "first_separator_replaced (lit ''@scope/pkg.Thing'') = lit ''@scope/pkg!Thing''"
  "\<not> possibly_scoped (lit ''Foo.Bar'')" "\<not> possibly_scoped (lit ''Foo'')"
  by (simp_all add: possibly_scoped_def first_separator_replaced_def separator_def lit_def)

lemma link_texts:
  "trim (part_text scoped_link) = lit ''@scope/pkg.Thing''"
  "trim (part_text foo_link) = lit ''Foo.Bar''"
  "trim (part_text bare_scope_link) = lit ''@scope''"
  by (simp_all add: part_eval string_eval)

lemma link_status:
  "broken_link_part scoped_link" "broken_link_part foo_link" "broken_link_part bare_scope_link"
  "\<not> broken_link_part resolved_link" "\<not> broken_link_part (TextPart tx)"
  "broken_link_part (InlineTag (lit ''@link'') (lit ''Foo'') None)"
  by (simp_all add: part_eval link_tag_def)

lemma source_texts:
  "texts_where broken_link_part (checked_parts InReadme package_decl) =
     [lit ''@scope/pkg.Thing'']"
  "texts_where broken_link_part (checked_parts InDocument broken_guide) = [lit ''Foo.Bar'']"
  "texts_where broken_link_part (checked_parts InComment thing) = [lit ''@scope/pkg.Thing'']"
  "texts_where broken_link_part (checked_parts InUnionSummary union_alias) = [lit ''Foo'']"
proof -
  show "texts_where broken_link_part (checked_parts InReadme package_decl) =
     [lit ''@scope/pkg.Thing'']"
    by (simp add: package_decl_def texts_where_def link_status link_texts)
  show "texts_where broken_link_part (checked_parts InDocument broken_guide) = [lit ''Foo.Bar'']"
    by (simp add: broken_guide_def texts_where_def link_status link_texts)
  show "texts_where broken_link_part (checked_parts InComment thing) = [lit ''@scope/pkg.Thing'']"
    by (simp add: thing_fields texts_where_def link_status link_texts)
  have "trim (part_text (InlineTag (lit ''@link'') (lit ''Foo'') None)) = lit ''Foo''"
    by (simp add: string_eval)
  then show "texts_where broken_link_part (checked_parts InUnionSummary union_alias) =
      [lit ''Foo'']"
    by (simp add: alias_fields texts_where_def link_tag_def)
qed

lemma scope_traversal:
  "own_keys (reflections scope_project) = [7]"
  "map_of (reflections scope_project) 7 = Some scope_user"
  "\<not> has_key (ident scope_project) (reflections scope_project)"
  "comment (Reflection.truncate scope_project) = None"
  "cls (Reflection.truncate scope_project) = ProjectReflection None"
  by (simp_all add: scope_project_def own_keys_def has_key_def Reflection.truncate_def)

lemma scope_user_fields:
  "comment scope_user = Some \<lparr>summary = [], blockTags = [\<lparr>content = [bare_scope_link]\<rparr>]\<rparr>"
  "friendlyFullName scope_user = lit ''User''" "cls scope_user = DeclarationReflection None None"
  by (simp_all add: scope_user_def)

lemma scope_user_links: "getBrokenLinks (comment scope_user) = [lit ''@scope'']"
  by (simp add: scope_user_fields getBrokenLinks_def getBrokenPartLinks_def
      bare_scope_link_def string_eval)

lemma scope_warning:
  "comment_body scope_user (lit ''@scope'') l =
     l @ [Message failed_to_resolve_link_to_0_in_comment_for_1_may_have_meant_2
            [lit ''@scope'', lit ''User'', lit ''@scope'']]"
  by (simp add: comment_body_def warn_def scope_user_fields string_eval)

lemma checkReflection_scope_user:
  "checkReflection scope_user l =
     l @ [Message failed_to_resolve_link_to_0_in_comment_for_1_may_have_meant_2
            [lit ''@scope'', lit ''User'', lit ''@scope'']]"
  by (simp add: check_eval scope_user_fields(3) scope_user_links scope_warning no_links)

lemma validateLinks_scope:
  "validateLinks scope_project [] =
     Inr [Message failed_to_resolve_link_to_0_in_comment_for_1_may_have_meant_2
            [lit ''@scope'', lit ''User'', lit ''@scope'']]"
proof -
  have "checkReflection (Reflection.truncate scope_project) l = l" for l
    by (simp add: check_eval scope_traversal getBrokenLinks_def no_links)
  then show ?thesis
    by (simp add: validateLinks_def validateLinks_with_def scope_traversal
        checkReflection_scope_user)
qed

section \<open>The claims\<close>

text \<open>
  C1: for every broken link text, each of the four loops emits one warning. A text that
  starts with \<^verbatim>\<open>@\<close> and contains no \<^verbatim>\<open>!\<close> is reported with a template that carries a
  suggestion, and the suggestion is the text with the first of \<^verbatim>\<open>.\<close>, \<^verbatim>\<open>#\<close>, \<^verbatim>\<open>~\<close>
  replaced by \<^verbatim>\<open>!\<close>; any other text is reported with a plain template, unchanged and
  without a suggestion. The warnings of a run of \<^verbatim>\<open>validateLinks\<close> report the broken link
  texts of the checked reflections, and every one of them is classified in this way.
\<close>

theorem broken_link_classification:
  "(\<forall>body \<in> set [readme_body, document_body, comment_body, union_body].
      \<exists>t. body r b l =
             l @ [Message t (if possibly_scoped b
                             then [b, friendlyFullName r, first_separator_replaced b]
                             else [b, friendlyFullName r])]
         \<and> (with_suggestion t \<longleftrightarrow> possibly_scoped b))
   \<and> (\<exists>ws. validateLinks p l = Inr (l @ ws)
         \<and> map (\<lambda>m. hd (args m)) ws = concat (map broken_links (visited p))
         \<and> (\<forall>m \<in> set ws. reported_as_claimed m))"
proof (rule conjI)
  have each: "\<exists>t. l @ [expected_warning src (friendlyFullName r) b] =
             l @ [Message t (if possibly_scoped b
                             then [b, friendlyFullName r, first_separator_replaced b]
                             else [b, friendlyFullName r])]
         \<and> (with_suggestion t \<longleftrightarrow> possibly_scoped b)" for src
    by (cases src) (simp_all add: expected_warning_def with_suggestion_def)
  show "\<forall>body \<in> set [readme_body, document_body, comment_body, union_body].
      \<exists>t. body r b l =
             l @ [Message t (if possibly_scoped b
                             then [b, friendlyFullName r, first_separator_replaced b]
                             else [b, friendlyFullName r])]
         \<and> (with_suggestion t \<longleftrightarrow> possibly_scoped b)"
    using each [of InReadme] each [of InDocument] each [of InComment] each [of InUnionSummary]
    by (simp add: readme_body_eq document_body_eq comment_body_eq union_body_eq)
next
  show "\<exists>ws. validateLinks p l = Inr (l @ ws)
         \<and> map (\<lambda>m. hd (args m)) ws = concat (map broken_links (visited p))
         \<and> (\<forall>m \<in> set ws. reported_as_claimed m)"
  proof (intro exI conjI)
    show "validateLinks p l = Inr (l @ concat (map warnings_of (visited p)))"
      by (rule validateLinks_eq)
    show "map (\<lambda>m. hd (args m)) (concat (map warnings_of (visited p))) =
        concat (map broken_links (visited p))"
      by (simp add: map_concat comp_def arg0_warnings_of)
    show "\<forall>m \<in> set (concat (map warnings_of (visited p))). reported_as_claimed m"
      by (auto simp: warnings_of_as_claimed)
  qed
qed

theorem broken_link_classification_witness:
  "validateLinks demo_project [] =
     Inr [Message failed_to_resolve_link_to_0_in_comment_for_1_may_have_meant_2
            [lit ''@scope/pkg.Thing'', lit ''Thing'', lit ''@scope/pkg!Thing'']]
   \<and> reported_as_claimed
       (Message failed_to_resolve_link_to_0_in_comment_for_1_may_have_meant_2
          [lit ''@scope/pkg.Thing'', lit ''Thing'', lit ''@scope/pkg!Thing''])
   \<and> possibly_scoped (lit ''@scope/pkg.Thing'')
   \<and> first_separator_replaced (lit ''@scope/pkg.Thing'') = lit ''@scope/pkg!Thing''"
proof -
  from broken_link_classification [where p = demo_project and l = "[]", THEN conjunct2]
  obtain ws
    where "validateLinks demo_project [] = Inr ([] @ ws)"
      and "\<forall>m \<in> set ws. reported_as_claimed m"
    by blast
  with validateLinks_demo
  have claimed: "reported_as_claimed
       (Message failed_to_resolve_link_to_0_in_comment_for_1_may_have_meant_2
          [lit ''@scope/pkg.Thing'', lit ''Thing'', lit ''@scope/pkg!Thing''])"
    by simp
  then have "possibly_scoped (lit ''@scope/pkg.Thing'')
   \<and> first_separator_replaced (lit ''@scope/pkg.Thing'') = lit ''@scope/pkg!Thing''"
    by (simp add: reported_as_claimed_def)
  with validateLinks_demo claimed show ?thesis by (simp only: simp_thms)
qed

text \<open>
  C2: \<^verbatim>\<open>getBrokenPartLinks\<close> returns, in order, exactly the trimmed text of the parts
  that are inline tags with one of the three link tags and whose target is absent or is a
  \<^verbatim>\<open>ReflectionSymbolId\<close>. Every other part, that is a text part, a code part, an inline
  tag with another tag or an inline tag with any other target that is not empty,
  contributes nothing, and no warning of a run comes from it: the warnings of a run report
  the texts of the parts that are not such other parts, which are the broken parts when
  every part is of one of the two kinds.
\<close>

theorem getBrokenPartLinks_exact:
  "((\<forall>part \<in> set parts. broken_as_claimed part \<or> other_part part) \<longrightarrow>
      getBrokenPartLinks parts =
        map (\<lambda>part. trim (part_text part)) (filter broken_as_claimed parts))
   \<and> getBrokenPartLinks parts =
        map (\<lambda>part. trim (part_text part)) (filter (\<lambda>part. \<not> other_part part) parts)
   \<and> (broken_as_claimed part \<longrightarrow>
        getBrokenPartLinks (before @ part # after) =
          getBrokenPartLinks before @ trim (part_text part) # getBrokenPartLinks after)
   \<and> (other_part part \<longrightarrow>
        getBrokenPartLinks (before @ part # after) = getBrokenPartLinks (before @ after))
   \<and> (\<exists>ws. validateLinks p l = Inr (l @ ws) \<and>
         map (\<lambda>m. hd (args m)) ws =
           concat (map (\<lambda>r. concat (map (\<lambda>src.
             texts_where (\<lambda>part. \<not> other_part part) (checked_parts src r)) link_sources))
             (visited p)))
   \<and> ((\<forall>r src. reached p r \<longrightarrow>
          (\<forall>part \<in> set (checked_parts src r). broken_as_claimed part \<or> other_part part)) \<longrightarrow>
        (\<exists>ws. validateLinks p l = Inr (l @ ws) \<and>
           map (\<lambda>m. hd (args m)) ws =
             concat (map (\<lambda>r. concat (map (\<lambda>src.
               texts_where broken_as_claimed (checked_parts src r)) link_sources))
               (visited p))))
   \<and> ((\<forall>r src. reached p r \<longrightarrow> (\<forall>part \<in> set (checked_parts src r). other_part part)) \<longrightarrow>
        validateLinks p l = Inr l)"
proof (intro conjI impI)
  assume "\<forall>part \<in> set parts. broken_as_claimed part \<or> other_part part"
  then show "getBrokenPartLinks parts =
      map (\<lambda>part. trim (part_text part)) (filter broken_as_claimed parts)"
    by (simp add: getBrokenPartLinks_texts classified_texts texts_where_def [symmetric])
next
  show "getBrokenPartLinks parts =
      map (\<lambda>part. trim (part_text part)) (filter (\<lambda>part. \<not> other_part part) parts)"
    by (simp add: getBrokenPartLinks_texts texts_where_def broken_iff_not_other [abs_def])
next
  show "\<exists>ws. validateLinks p l = Inr (l @ ws) \<and>
      map (\<lambda>m. hd (args m)) ws =
        concat (map (\<lambda>r. concat (map (\<lambda>src.
          texts_where (\<lambda>part. \<not> other_part part) (checked_parts src r)) link_sources))
          (visited p))"
    by (simp add: validateLinks_eq arg0_run broken_links_parts [abs_def]
        broken_iff_not_other [abs_def])
next
  assume "broken_as_claimed part"
  then have "broken_link_part part" by (rule broken_as_claimed_broken)
  then show "getBrokenPartLinks (before @ part # after) =
      getBrokenPartLinks before @ trim (part_text part) # getBrokenPartLinks after"
    by (simp add: getBrokenPartLinks_texts texts_where_def)
next
  assume "other_part part"
  then have "\<not> broken_link_part part" by (rule other_part_not_broken)
  then show "getBrokenPartLinks (before @ part # after) = getBrokenPartLinks (before @ after)"
    by (simp add: getBrokenPartLinks_texts texts_where_def)
next
  assume classified: "\<forall>r src. reached p r \<longrightarrow>
      (\<forall>part \<in> set (checked_parts src r). broken_as_claimed part \<or> other_part part)"
  have "broken_links r =
      concat (map (\<lambda>src. texts_where broken_as_claimed (checked_parts src r)) link_sources)"
    if "r \<in> set (visited p)" for r
  proof -
    from that have "reached p r" by (simp add: set_visited)
    with classified have "texts_where broken_link_part (checked_parts src r) =
        texts_where broken_as_claimed (checked_parts src r)" for src
      by (simp add: classified_texts)
    then show ?thesis by (simp add: broken_links_parts)
  qed
  then have "concat (map broken_links (visited p)) =
      concat (map (\<lambda>r. concat (map (\<lambda>src.
        texts_where broken_as_claimed (checked_parts src r)) link_sources)) (visited p))"
    by (simp cong: map_cong)
  then show "\<exists>ws. validateLinks p l = Inr (l @ ws) \<and>
      map (\<lambda>m. hd (args m)) ws =
        concat (map (\<lambda>r. concat (map (\<lambda>src.
          texts_where broken_as_claimed (checked_parts src r)) link_sources)) (visited p))"
    by (simp add: validateLinks_eq arg0_run)
next
  assume other: "\<forall>r src. reached p r \<longrightarrow>
      (\<forall>part \<in> set (checked_parts src r). other_part part)"
  have "warnings_of r = []" if "r \<in> set (visited p)" for r
  proof -
    from that have "reached p r" by (simp add: set_visited)
    with other have "texts_where broken_link_part (checked_parts src r) = []" for src
      by (simp add: other_texts)
    then have "broken_links r = []" by (simp add: broken_links_parts)
    then have "map (\<lambda>m. hd (args m)) (warnings_of r) = []"
      by (simp only: arg0_warnings_of)
    then show ?thesis by simp
  qed
  then have "concat (map warnings_of (visited p)) = []" by simp
  then show "validateLinks p l = Inr l" by (simp add: validateLinks_eq)
qed

theorem getBrokenPartLinks_exact_witness:
  "broken_as_claimed foo_link \<and> other_part resolved_link \<and> broken_as_claimed bare_scope_link
   \<and> getBrokenPartLinks [foo_link, resolved_link, bare_scope_link] =
       [lit ''Foo.Bar'', lit ''@scope'']
   \<and> getBrokenPartLinks [foo_link, resolved_link, bare_scope_link] =
       getBrokenPartLinks [foo_link, bare_scope_link]
   \<and> validateLinks quiet_project [] = Inr []"
proof -
  have a: "broken_as_claimed foo_link" "other_part resolved_link"
    "broken_as_claimed bare_scope_link"
    by (simp_all add: part_eval link_tag_def lit_def)
  note exact = getBrokenPartLinks_exact [where parts = "[foo_link, resolved_link, bare_scope_link]"
    and part = resolved_link and before = "[foo_link]" and after = "[bare_scope_link]"
    and p = quiet_project and l = "[]"]
  from a have "\<forall>part \<in> set [foo_link, resolved_link, bare_scope_link].
      broken_as_claimed part \<or> other_part part"
    by simp
  with exact [THEN conjunct1]
  have "getBrokenPartLinks [foo_link, resolved_link, bare_scope_link] =
      map (\<lambda>part. trim (part_text part))
        (filter broken_as_claimed [foo_link, resolved_link, bare_scope_link])"
    by (rule mp)
  moreover have "\<not> broken_as_claimed resolved_link"
    by (simp add: resolved_link_def)
  ultimately have b: "getBrokenPartLinks [foo_link, resolved_link, bare_scope_link] =
      [lit ''Foo.Bar'', lit ''@scope'']"
    using a by (simp add: link_texts)
  from exact [THEN conjunct2, THEN conjunct2, THEN conjunct2, THEN conjunct1, THEN mp, OF a(2)]
  have c: "getBrokenPartLinks [foo_link, resolved_link, bare_scope_link] =
      getBrokenPartLinks [foo_link, bare_scope_link]"
    by simp
  have checked: "checked_parts src guide = [] \<or>
      checked_parts src guide = [resolved_link, CodePart (lit ''x'')]" for src
    by (cases src) (simp_all add: guide_fields)
  have checked': "checked_parts src (Reflection.truncate quiet_project) = [] \<or>
      checked_parts src (Reflection.truncate quiet_project) =
        [TextPart (lit ''Hello''), resolved_link]" for src
    by (cases src) (simp_all add: quiet_traversal)
  have "\<forall>part \<in> set (checked_parts src r). other_part part" if "reached quiet_project r"
    for r src
  proof -
    from that have "r \<in> set (visited quiet_project)" by (simp add: set_visited)
    then have "r = guide \<or> r = Reflection.truncate quiet_project"
      by (simp add: visited_quiet)
    with checked [of src] checked' [of src] a(2) show ?thesis by auto
  qed
  then have "\<forall>r src. reached quiet_project r \<longrightarrow>
      (\<forall>part \<in> set (checked_parts src r). other_part part)"
    by blast
  with exact [THEN conjunct2, THEN conjunct2, THEN conjunct2, THEN conjunct2, THEN conjunct2,
    THEN conjunct2]
  have d: "validateLinks quiet_project [] = Inr []"
    by (rule mp)
  show ?thesis
    by (rule conjI [OF a(1) conjI [OF a(2) conjI [OF a(3) conjI [OF b conjI [OF c d]]]]])
qed

text \<open>
  A link tag whose target is the empty string is in neither class: the test
  \<^verbatim>\<open>!part.target\<close> holds of the empty string, and the text of the part is returned.
\<close>

lemma getBrokenPartLinks_empty_target:
  "getBrokenPartLinks [empty_target_link] = [lit ''Foo'']
   \<and> \<not> broken_as_claimed empty_target_link \<and> \<not> other_part empty_target_link"
  by (simp add: getBrokenPartLinks_def empty_target_link_def string_eval link_tag_def)

text \<open>
  C3: \<^verbatim>\<open>validateLinks\<close> runs \<^verbatim>\<open>checkReflection\<close> on the reflection stored under each key
  of \<^verbatim>\<open>project.reflections\<close>, once for each key, and then on the project itself exactly
  when the id of the project is not a key; the log it returns holds the warnings of each of
  these reflections once. With every reflection stored under its own id, as the data model
  has it, each stored reflection and the project are checked exactly once.
\<close>

theorem validateLinks_visits_once:
  "validateLinks p l =
     Inr (fold checkReflection
       (stored p @ (if has_key (ident p) (reflections p) then [] else [Reflection.truncate p])) l)
   \<and> validateLinks p l =
     Inr (l @ concat (map warnings_of
       (stored p @ (if has_key (ident p) (reflections p) then [] else [Reflection.truncate p]))))
   \<and> validateLinks_with check p l' =
     Inr (fold check
       (stored p @ (if has_key (ident p) (reflections p) then [] else [Reflection.truncate p])) l')
   \<and> map Some (stored p) = map (map_of (reflections p)) (own_keys (reflections p))
   \<and> distinct (own_keys (reflections p))
   \<and> set (own_keys (reflections p)) = dom (map_of (reflections p))
   \<and> (\<forall>k. count_list (own_keys (reflections p)) k =
          (if k \<in> dom (map_of (reflections p)) then 1 else 0))
   \<and> (stored_by_id p \<longrightarrow>
        (\<forall>r. r \<in> ran (map_of (reflections p)) \<or> r = Reflection.truncate p \<longrightarrow>
           count_list (visited p) r = 1))"
proof (intro conjI)
  show "validateLinks p l =
     Inr (fold checkReflection
       (stored p @ (if has_key (ident p) (reflections p) then [] else [Reflection.truncate p])) l)"
    using validateLinks_with_eq [of checkReflection p l]
    by (simp add: validateLinks_def visited_def)
  show "validateLinks p l =
     Inr (l @ concat (map warnings_of
       (stored p @ (if has_key (ident p) (reflections p) then [] else [Reflection.truncate p]))))"
    using validateLinks_eq [of p l] by (simp add: visited_def)
  show "validateLinks_with check p l' =
     Inr (fold check
       (stored p @ (if has_key (ident p) (reflections p) then [] else [Reflection.truncate p])) l')"
    using validateLinks_with_eq [of check p l'] by (simp add: visited_def)
  show "map Some (stored p) = map (map_of (reflections p)) (own_keys (reflections p))"
    by (rule stored_lookup)
  show "distinct (own_keys (reflections p))"
    by (rule distinct_own_keys)
  show keys: "set (own_keys (reflections p)) = dom (map_of (reflections p))"
    by (simp add: set_own_keys dom_map_of_conv_image_fst)
  show "\<forall>k. count_list (own_keys (reflections p)) k =
          (if k \<in> dom (map_of (reflections p)) then 1 else 0)"
    using keys distinct_own_keys [of "reflections p"]
    by (metis count_list_distinct count_list_notin)
  show "stored_by_id p \<longrightarrow>
        (\<forall>r. r \<in> ran (map_of (reflections p)) \<or> r = Reflection.truncate p \<longrightarrow>
           count_list (visited p) r = 1)"
    by (simp add: visited_once)
qed

theorem validateLinks_visits_once_witness:
  "stored_by_id registered_project
   \<and> validateLinks registered_project [] =
       Inr (fold checkReflection [Reflection.truncate registered_project, guide, thing] [])
   \<and> validateLinks registered_project [] =
       Inr [Message failed_to_resolve_link_to_0_in_comment_for_1_may_have_meant_2
              [lit ''@scope/pkg.Thing'', lit ''Thing'', lit ''@scope/pkg!Thing'']]
   \<and> validateLinks_with (\<lambda>r seen. seen @ [ident r]) registered_project [] = Inr [0, 2, 4]
   \<and> count_list (visited registered_project) thing = 1
   \<and> count_list (visited registered_project) (Reflection.truncate registered_project) = 1
   \<and> stored_by_id demo_project
   \<and> validateLinks demo_project [] =
       Inr (fold checkReflection [thing, Reflection.truncate demo_project] [])
   \<and> count_list (visited demo_project) (Reflection.truncate demo_project) = 1"
proof -
  have wf: "stored_by_id registered_project"
    by (simp add: stored_by_id_def registered_project_def Reflection.truncate_def
        guide_def thing_def)
  have wf': "stored_by_id demo_project"
    by (simp add: stored_by_id_def demo_project_def thing_def)
  have mem: "thing \<in> ran (map_of (reflections registered_project))"
    using registered_traversal(4) by (rule ranI)
  have stored: "stored registered_project = [Reflection.truncate registered_project, guide, thing]"
    by (simp add: stored_def registered_traversal List.map_filter_simps)
  note all = validateLinks_visits_once [where p = registered_project and l = "[]"
    and check = "\<lambda>r seen. seen @ [ident r]" and l' = "[]"]
  note all' = validateLinks_visits_once [where p = demo_project and l = "[]"
    and check = "\<lambda>r seen. seen @ [ident r]" and l' = "[]"]
  from all [THEN conjunct1]
  have run: "validateLinks registered_project [] =
      Inr (fold checkReflection [Reflection.truncate registered_project, guide, thing] [])"
    by (simp add: stored registered_traversal)
  from all [THEN conjunct2, THEN conjunct2, THEN conjunct1]
  have trace: "validateLinks_with (\<lambda>r seen. seen @ [ident r]) registered_project [] =
      Inr [0, 2, 4]"
    by (simp add: stored registered_traversal guide_fields thing_fields)
  from all' [THEN conjunct1]
  have run': "validateLinks demo_project [] =
      Inr (fold checkReflection [thing, Reflection.truncate demo_project] [])"
    by (simp add: stored_demo demo_traversal)
  note once = all [THEN conjunct2, THEN conjunct2, THEN conjunct2, THEN conjunct2,
    THEN conjunct2, THEN conjunct2, THEN conjunct2, THEN mp, OF wf, THEN spec, THEN mp]
  note once' = all' [THEN conjunct2, THEN conjunct2, THEN conjunct2, THEN conjunct2,
    THEN conjunct2, THEN conjunct2, THEN conjunct2, THEN mp, OF wf', THEN spec, THEN mp]
  from mem have c1: "count_list (visited registered_project) thing = 1"
    by (rule once [OF disjI1])
  have c2: "count_list (visited registered_project) (Reflection.truncate registered_project) = 1"
    by (rule once [OF disjI2]) (rule refl)
  have c3: "count_list (visited demo_project) (Reflection.truncate demo_project) = 1"
    by (rule once' [OF disjI2]) (rule refl)
  from wf wf' run validateLinks_registered trace run' c1 c2 c3 show ?thesis
    by (simp only: simp_thms)
qed

text \<open>
  C4, as amended: the readme, the document content and the comment each emit, for every
  broken link, a message from a pair of templates of their own, with a suggestion for a
  text that starts with \<^verbatim>\<open>@\<close> and contains no \<^verbatim>\<open>!\<close> and plain otherwise, six distinct
  templates in all, so that the messages of two of these sources for the same text differ.
  A broken link in the summary of a member of a union is reported with the pair of the
  comment: its message is the message that the comment source emits for the same text.
\<close>

theorem templates_by_source:
  "check_readme r l =
     l @ map (readme_message (friendlyFullName r))
           (texts_where broken_link_part (checked_parts InReadme r))
   \<and> check_document r l =
     l @ map (document_message (friendlyFullName r))
           (texts_where broken_link_part (checked_parts InDocument r))
   \<and> check_comment r l =
     l @ map (comment_message (friendlyFullName r))
           (texts_where broken_link_part (checked_parts InComment r))
   \<and> check_union r l =
     l @ map (comment_message (friendlyFullName r))
           (texts_where broken_link_part (checked_parts InUnionSummary r))
   \<and> checkReflection r l =
     l @ map (readme_message (friendlyFullName r))
           (texts_where broken_link_part (checked_parts InReadme r))
       @ map (document_message (friendlyFullName r))
           (texts_where broken_link_part (checked_parts InDocument r))
       @ map (comment_message (friendlyFullName r))
           (texts_where broken_link_part (checked_parts InComment r))
       @ map (comment_message (friendlyFullName r))
           (texts_where broken_link_part (checked_parts InUnionSummary r))
   \<and> readme_body r b l = l @ [readme_message (friendlyFullName r) b]
   \<and> document_body r b l = l @ [document_message (friendlyFullName r) b]
   \<and> comment_body r b l = l @ [comment_message (friendlyFullName r) b]
   \<and> union_body r b l = comment_body r b l
   \<and> readme_message name b \<noteq> document_message name b
   \<and> readme_message name b \<noteq> comment_message name b
   \<and> document_message name b \<noteq> comment_message name b
   \<and> distinct [failed_to_resolve_link_to_0_in_readme_for_1_may_have_meant_2,
                failed_to_resolve_link_to_0_in_readme_for_1,
                failed_to_resolve_link_to_0_in_document_1_may_have_meant_2,
                failed_to_resolve_link_to_0_in_document_1,
                failed_to_resolve_link_to_0_in_comment_for_1_may_have_meant_2,
                failed_to_resolve_link_to_0_in_comment_for_1]"
proof -
  have readme: "check_readme r l =
     l @ map (readme_message (friendlyFullName r))
           (texts_where broken_link_part (checked_parts InReadme r))"
    by (simp add: check_readme_eq warnings_from_def links_in_parts expected_by_source [abs_def])
  have document: "check_document r l =
     l @ map (document_message (friendlyFullName r))
           (texts_where broken_link_part (checked_parts InDocument r))" for l
    by (simp add: check_document_eq warnings_from_def links_in_parts
        expected_by_source [abs_def])
  have comment: "check_comment r l =
     l @ map (comment_message (friendlyFullName r))
           (texts_where broken_link_part (checked_parts InComment r))" for l
    by (simp add: check_comment_eq warnings_from_def links_in_parts
        expected_by_source [abs_def])
  have union: "check_union r l =
     l @ map (comment_message (friendlyFullName r))
           (texts_where broken_link_part (checked_parts InUnionSummary r))" for l
    by (simp add: check_union_eq warnings_from_def links_in_parts expected_by_source [abs_def])
  have whole: "checkReflection r l =
     l @ map (readme_message (friendlyFullName r))
           (texts_where broken_link_part (checked_parts InReadme r))
       @ map (document_message (friendlyFullName r))
           (texts_where broken_link_part (checked_parts InDocument r))
       @ map (comment_message (friendlyFullName r))
           (texts_where broken_link_part (checked_parts InComment r))
       @ map (comment_message (friendlyFullName r))
           (texts_where broken_link_part (checked_parts InUnionSummary r))"
    by (simp add: checkReflection_def readme document comment union)
  have bodies: "readme_body r b l = l @ [readme_message (friendlyFullName r) b]"
    "document_body r b l = l @ [document_message (friendlyFullName r) b]"
    "comment_body r b l = l @ [comment_message (friendlyFullName r) b]"
    "union_body r b l = comment_body r b l"
    by (simp_all add: readme_body_eq document_body_eq comment_body_eq union_body_eq
        expected_by_source)
  have differ: "readme_message name b \<noteq> document_message name b"
    "readme_message name b \<noteq> comment_message name b"
    "document_message name b \<noteq> comment_message name b"
    by (simp_all add: readme_message_def document_message_def comment_message_def)
  have six: "distinct [failed_to_resolve_link_to_0_in_readme_for_1_may_have_meant_2,
                failed_to_resolve_link_to_0_in_readme_for_1,
                failed_to_resolve_link_to_0_in_document_1_may_have_meant_2,
                failed_to_resolve_link_to_0_in_document_1,
                failed_to_resolve_link_to_0_in_comment_for_1_may_have_meant_2,
                failed_to_resolve_link_to_0_in_comment_for_1]"
    by simp
  from readme document comment union whole bodies differ six show ?thesis
    by (simp only: simp_thms)
qed

theorem templates_by_source_witness:
  "check_readme package_decl [] =
     [Message failed_to_resolve_link_to_0_in_readme_for_1_may_have_meant_2
        [lit ''@scope/pkg.Thing'', lit ''pkg'', lit ''@scope/pkg!Thing'']]
   \<and> check_document broken_guide [] =
     [Message failed_to_resolve_link_to_0_in_document_1 [lit ''Foo.Bar'', lit ''Broken'']]
   \<and> check_comment thing [] =
     [Message failed_to_resolve_link_to_0_in_comment_for_1_may_have_meant_2
        [lit ''@scope/pkg.Thing'', lit ''Thing'', lit ''@scope/pkg!Thing'']]
   \<and> check_union union_alias [] =
     [Message failed_to_resolve_link_to_0_in_comment_for_1 [lit ''Foo'', lit ''Alias'']]"
proof -
  have names: "friendlyFullName package_decl = lit ''pkg''"
    "friendlyFullName broken_guide = lit ''Broken''"
    by (simp_all add: package_decl_def broken_guide_def)
  from templates_by_source [where r = package_decl and l = "[]", THEN conjunct1,
    unfolded source_texts names]
  have a: "check_readme package_decl [] =
     [Message failed_to_resolve_link_to_0_in_readme_for_1_may_have_meant_2
        [lit ''@scope/pkg.Thing'', lit ''pkg'', lit ''@scope/pkg!Thing'']]"
    by (simp add: readme_message_def scoped_text)
  from templates_by_source [where r = broken_guide and l = "[]", THEN conjunct2, THEN conjunct1,
    unfolded source_texts names]
  have b: "check_document broken_guide [] =
     [Message failed_to_resolve_link_to_0_in_document_1 [lit ''Foo.Bar'', lit ''Broken'']]"
    by (simp add: document_message_def scoped_text)
  from templates_by_source [where r = thing and l = "[]", THEN conjunct2, THEN conjunct2,
    THEN conjunct1, unfolded source_texts thing_fields]
  have c: "check_comment thing [] =
     [Message failed_to_resolve_link_to_0_in_comment_for_1_may_have_meant_2
        [lit ''@scope/pkg.Thing'', lit ''Thing'', lit ''@scope/pkg!Thing'']]"
    by (simp add: comment_message_def scoped_text)
  from templates_by_source [where r = union_alias and l = "[]", THEN conjunct2, THEN conjunct2,
    THEN conjunct2, THEN conjunct1, unfolded source_texts alias_fields]
  have d: "check_union union_alias [] =
     [Message failed_to_resolve_link_to_0_in_comment_for_1 [lit ''Foo'', lit ''Alias'']]"
    by (simp add: comment_message_def scoped_text)
  show ?thesis by (rule conjI [OF a conjI [OF b conjI [OF c d]]])
qed

text \<open>
  The claim C4 as it is stated fails: a broken link in the summary of a union member is
  reported with the very message that the same link in the comment gets.
\<close>

theorem union_summary_message_is_comment_message:
  "checkReflection union_alias [] =
     [Message failed_to_resolve_link_to_0_in_comment_for_1 [lit ''Foo'', lit ''Alias'']]
   \<and> checkReflection commented_alias [] = checkReflection union_alias []"
  by (simp add: checkReflection_union_alias checkReflection_commented_alias)

text \<open>
  C5: on an index event whose two arrays have the same length n, as after construction
  from n results, \<^verbatim>\<open>removeResult(k)\<close> with \<^verbatim>\<open>0 <= k < n\<close> leaves both arrays of length
  \<^verbatim>\<open>n - 1\<close>: the entries at k are gone from both, the entries before k stay in place and
  the entries after k move down by one, in both arrays alike.
\<close>

theorem removeResult_pairing:
  assumes aligned: "length (searchFields ev) = length (searchResults ev)"
    and k: "0 \<le> k" "k < int (length (searchResults ev))"
  shows "length (searchResults (removeResult k ev)) = length (searchResults ev) - 1
       \<and> length (searchFields (removeResult k ev)) = length (searchResults ev) - 1
       \<and> searchResults (removeResult k ev) =
           take (nat k) (searchResults ev) @ drop (Suc (nat k)) (searchResults ev)
       \<and> searchFields (removeResult k ev) =
           take (nat k) (searchFields ev) @ drop (Suc (nat k)) (searchFields ev)
       \<and> (\<forall>i < nat k.
            searchResults (removeResult k ev) ! i = searchResults ev ! i \<and>
            searchFields (removeResult k ev) ! i = searchFields ev ! i)
       \<and> (\<forall>i. nat k \<le> i \<and> i < length (searchResults ev) - 1 \<longrightarrow>
            searchResults (removeResult k ev) ! i = searchResults ev ! Suc i \<and>
            searchFields (removeResult k ev) ! i = searchFields ev ! Suc i)"
proof -
  from k have kn: "nat k < length (searchResults ev)" by simp
  with aligned have kf: "nat k < length (searchFields ev)" by simp
  from k have r: "searchResults (removeResult k ev) =
      take (nat k) (searchResults ev) @ drop (Suc (nat k)) (searchResults ev)"
    by (simp add: removeResult_def splice_one)
  from k aligned have f: "searchFields (removeResult k ev) =
      take (nat k) (searchFields ev) @ drop (Suc (nat k)) (searchFields ev)"
    by (simp add: removeResult_def splice_one)
  have l1: "length (searchResults (removeResult k ev)) = length (searchResults ev) - 1"
    unfolding r using kn by (rule remove_nth_length)
  have l2: "length (searchFields (removeResult k ev)) = length (searchResults ev) - 1"
    unfolding f using kf aligned by (simp only: remove_nth_length)
  have b: "\<forall>i < nat k.
            searchResults (removeResult k ev) ! i = searchResults ev ! i \<and>
            searchFields (removeResult k ev) ! i = searchFields ev ! i"
    unfolding r f using kn kf by (simp add: remove_nth_before)
  have a: "\<forall>i. nat k \<le> i \<and> i < length (searchResults ev) - 1 \<longrightarrow>
            searchResults (removeResult k ev) ! i = searchResults ev ! Suc i \<and>
            searchFields (removeResult k ev) ! i = searchFields ev ! Suc i"
    unfolding r f using kn kf aligned by (simp add: remove_nth_after)
  from l1 l2 r f a b show ?thesis by blast
qed

theorem removeResult_pairing_witness:
  "length (searchFields (new_IndexEvent [guide, thing, union_alias])) =
     length (searchResults (new_IndexEvent [guide, thing, union_alias]))
   \<and> (0::int) \<le> 1
   \<and> (1::int) < int (length (searchResults (new_IndexEvent [guide, thing, union_alias])))
   \<and> searchResults (removeResult 1 (new_IndexEvent [guide, thing, union_alias])) =
       [guide, union_alias]
   \<and> length (searchFields (removeResult 1 (new_IndexEvent [guide, thing, union_alias]))) = 2"
proof -
  let ?ev = "new_IndexEvent [guide, thing, union_alias]"
  have results: "searchResults ?ev = [guide, thing, union_alias]"
    by (simp add: new_IndexEvent_def)
  have h1: "length (searchFields ?ev) = length (searchResults ?ev)"
    by (simp add: new_IndexEvent_def)
  have h2: "(0::int) \<le> 1" by simp
  have h3: "(1::int) < int (length (searchResults ?ev))"
    by (simp add: results)
  note pairing = removeResult_pairing [OF h1 h2 h3]
  from pairing [THEN conjunct2, THEN conjunct2, THEN conjunct1]
  have a: "searchResults (removeResult 1 ?ev) = [guide, union_alias]"
    by (simp add: results)
  from pairing [THEN conjunct2, THEN conjunct1]
  have b: "length (searchFields (removeResult 1 ?ev)) = 2"
    by (simp add: results)
  show ?thesis by (rule conjI [OF h1 conjI [OF h2 conjI [OF h3 conjI [OF a b]]]])
qed

text \<open>
  C6: a new page event has exactly one section, with the empty title, whose headings are
  the array of \<^verbatim>\<open>pageHeadings\<close>. After any sequence of calls that start a section or
  record a heading, \<^verbatim>\<open>pageSections\<close> is not empty and \<^verbatim>\<open>pageHeadings\<close> is the array of
  the last section. A call of \<^verbatim>\<open>startNewSection\<close> appends a section whose headings are a
  fresh, empty array, which \<^verbatim>\<open>pageHeadings\<close> then refers to, and leaves the arrays of all
  earlier sections as they were.
\<close>

theorem page_sections_invariant:
  "(\<exists>sec. pageSections (fst (new_PageEvent m st)) = [sec] \<and> title sec = []
       \<and> headings sec = pageHeadings (fst (new_PageEvent m st))
       \<and> headings sec = length st
       \<and> snd (new_PageEvent m st) = st @ [[]])
   \<and> (page_after m st calls = (ev, st1) \<longrightarrow>
        pageSections ev \<noteq> [] \<and> headings (last (pageSections ev)) = pageHeadings ev
        \<and> pageHeadings ev < length st1)
   \<and> (page_after m st calls = (ev, st1) \<and> startNewSection t (ev, st1) = (ev', st2) \<longrightarrow>
        pageSections ev' = pageSections ev @ [\<lparr>title = t, headings = pageHeadings ev'\<rparr>]
        \<and> headings (last (pageSections ev')) = pageHeadings ev'
        \<and> st2 ! pageHeadings ev' = []
        \<and> pageHeadings ev' \<notin> headings ` set (pageSections ev)
        \<and> (\<forall>sec \<in> set (pageSections ev). st2 ! headings sec = st1 ! headings sec))"
proof (intro conjI impI)
  show "\<exists>sec. pageSections (fst (new_PageEvent m st)) = [sec] \<and> title sec = []
       \<and> headings sec = pageHeadings (fst (new_PageEvent m st))
       \<and> headings sec = length st
       \<and> snd (new_PageEvent m st) = st @ [[]]"
    by (simp add: new_PageEvent_def Let_def)
next
  assume "page_after m st calls = (ev, st1)"
  with page_inv_after [of m st calls] have "page_inv (ev, st1)" by simp
  then have inv: "pageSections ev \<noteq> []" "headings (last (pageSections ev)) = pageHeadings ev"
    "\<forall>sec \<in> set (pageSections ev). headings sec < length st1"
    by (simp_all add: page_inv_def)
  from inv(1) have "last (pageSections ev) \<in> set (pageSections ev)" by (rule last_in_set)
  with inv(2,3) have "pageHeadings ev < length st1" by auto
  with inv(1,2) show "pageSections ev \<noteq> []" "headings (last (pageSections ev)) = pageHeadings ev"
    "pageHeadings ev < length st1"
    by simp_all
next
  assume a: "page_after m st calls = (ev, st1) \<and> startNewSection t (ev, st1) = (ev', st2)"
  with page_inv_after [of m st calls] have inv: "page_inv (ev, st1)" by simp
  from a have ev': "ev' = ev\<lparr>pageHeadings := length st1,
      pageSections := pageSections ev @ [\<lparr>title = t, headings = length st1\<rparr>]\<rparr>"
    and st2: "st2 = st1 @ [[]]"
    by (auto simp: startNewSection_def Let_def)
  show "pageSections ev' = pageSections ev @ [\<lparr>title = t, headings = pageHeadings ev'\<rparr>]"
    by (simp add: ev')
  show "headings (last (pageSections ev')) = pageHeadings ev'"
    by (simp add: ev')
  show "st2 ! pageHeadings ev' = []"
    by (simp add: ev' st2)
  from inv show "pageHeadings ev' \<notin> headings ` set (pageSections ev)"
    by (auto simp: ev' page_inv_def)
  from inv show "\<forall>sec \<in> set (pageSections ev). st2 ! headings sec = st1 ! headings sec"
    by (auto simp: st2 page_inv_def nth_append)
qed

theorem page_sections_invariant_witness:
  "page_after () [] [PushHeading (heading 1)] =
     (fst (new_PageEvent () []), [[heading 1]])
   \<and> startNewSection (lit ''B'') (fst (new_PageEvent () []), [[heading 1]]) =
       (fst (new_PageEvent () [])
          \<lparr>pageHeadings := 1,
           pageSections := [\<lparr>title = [], headings = 0\<rparr>, \<lparr>title = lit ''B'', headings = 1\<rparr>]\<rparr>,
        [[heading 1], []])
   \<and> [[heading 1], []] ! 1 = []
   \<and> [[heading 1], []] ! headings \<lparr>title = [], headings = 0\<rparr> = [heading 1]"
proof -
  let ?ev = "fst (new_PageEvent () [])"
  let ?ev' = "?ev\<lparr>pageHeadings := 1,
    pageSections := [\<lparr>title = [], headings = 0\<rparr>, \<lparr>title = lit ''B'', headings = 1\<rparr>]\<rparr>"
  have before: "page_after () [] [PushHeading (heading 1)] = (?ev, [[heading 1]])"
    by (simp add: page_after_def new_PageEvent_def pushHeading_def)
  have call: "startNewSection (lit ''B'') (?ev, [[heading 1]]) = (?ev', [[heading 1], []])"
    by (simp add: startNewSection_def new_PageEvent_def)
  note inv = page_sections_invariant [of "()" "[]" "[PushHeading (heading 1)]" ?ev
    "[[heading 1]]" "lit ''B''" ?ev' "[[heading 1], []]",
    THEN conjunct2, THEN conjunct2, THEN mp, OF conjI [OF before call]]
  from inv have fresh: "[[heading 1], []] ! pageHeadings ?ev' = []"
    by (elim conjE)
  from inv
  have kept: "\<forall>sec \<in> set (pageSections ?ev).
      [[heading 1], []] ! headings sec = [[heading 1]] ! headings sec"
    by (elim conjE)
  from fresh have fresh': "[[heading 1], []] ! 1 = []"
    by simp
  from kept have kept': "[[heading 1], []] ! headings \<lparr>title = [], headings = 0\<rparr> = [heading 1]"
    by (simp add: new_PageEvent_def)
  show ?thesis by (rule conjI [OF before conjI [OF call conjI [OF fresh' kept']]])
qed

text \<open>
  C7: a call of \<^verbatim>\<open>validateLinks\<close> does not throw and changes nothing but the logger: the
  project, with every reflection, comment and display part in it, is after the call what
  it was before. The logger has received one warning for each broken part of the
  reflections that the run reaches, in their order and with the trimmed text of the part
  as the first argument, and nothing at all when there is no broken part.
\<close>

theorem validateLinks_effect:
  "\<exists>ws h'. validateLinks_on h = Inr h'
      \<and> heap_project h' = heap_project h
      \<and> heap_logger h' = heap_logger h @ ws
      \<and> validateLinks (heap_project h) (heap_logger h) = Inr (heap_logger h @ ws)
      \<and> map (\<lambda>m. hd (args m)) ws =
          concat (map (\<lambda>r. concat (map (\<lambda>src.
            texts_where broken_link_part (checked_parts src r)) link_sources))
            (visited (heap_project h)))
      \<and> length ws =
          (\<Sum>r\<leftarrow>visited (heap_project h). \<Sum>src\<leftarrow>link_sources.
             length (filter broken_link_part (checked_parts src r)))
      \<and> ((\<forall>r src. reached (heap_project h) r \<longrightarrow>
             (\<forall>part \<in> set (checked_parts src r). \<not> broken_link_part part)) \<longrightarrow>
           h' = h)"
proof -
  let ?p = "heap_project h"
  let ?ws = "concat (map warnings_of (visited ?p))"
  let ?h' = "h\<lparr>heap_logger := heap_logger h @ ?ws\<rparr>"
  have run: "validateLinks_on h = Inr ?h'"
    by (rule validateLinks_on_run)
  have texts: "map (\<lambda>m. hd (args m)) ?ws =
      concat (map (\<lambda>r. concat (map (\<lambda>src.
        texts_where broken_link_part (checked_parts src r)) link_sources)) (visited ?p))"
    by (simp add: arg0_run broken_links_parts [abs_def])
  have "length ?ws = length (map (\<lambda>m. hd (args m)) ?ws)"
    by simp
  also have "\<dots> = (\<Sum>r\<leftarrow>visited ?p. \<Sum>src\<leftarrow>link_sources.
      length (filter broken_link_part (checked_parts src r)))"
    unfolding texts by (simp add: length_concat comp_def texts_where_def)
  finally have count: "length ?ws = (\<Sum>r\<leftarrow>visited ?p. \<Sum>src\<leftarrow>link_sources.
      length (filter broken_link_part (checked_parts src r)))" .
  have none: "?h' = h"
    if clean: "\<forall>r src. reached ?p r \<longrightarrow>
      (\<forall>part \<in> set (checked_parts src r). \<not> broken_link_part part)"
  proof -
    have "texts_where broken_link_part (checked_parts src r) = []"
      if "r \<in> set (visited ?p)" for r src
      using that clean by (simp add: set_visited texts_where_def)
    then have "map (\<lambda>m. hd (args m)) ?ws = []"
      unfolding texts by simp
    then have "?ws = []" by (simp only: map_is_Nil_conv)
    then show ?thesis by simp
  qed
  show ?thesis
  proof (intro exI conjI impI)
    show "validateLinks_on h = Inr ?h'" by (rule run)
    show "heap_project ?h' = heap_project h" by simp
    show "heap_logger ?h' = heap_logger h @ ?ws" by simp
    show "validateLinks (heap_project h) (heap_logger h) = Inr (heap_logger h @ ?ws)"
      by (rule validateLinks_eq)
    show "map (\<lambda>m. hd (args m)) ?ws =
      concat (map (\<lambda>r. concat (map (\<lambda>src.
        texts_where broken_link_part (checked_parts src r)) link_sources)) (visited ?p))"
      by (rule texts)
    show "length ?ws = (\<Sum>r\<leftarrow>visited ?p. \<Sum>src\<leftarrow>link_sources.
      length (filter broken_link_part (checked_parts src r)))"
      by (rule count)
    show "?h' = h"
      if "\<forall>r src. reached ?p r \<longrightarrow>
        (\<forall>part \<in> set (checked_parts src r). \<not> broken_link_part part)"
      using that by (rule none)
  qed
qed

theorem validateLinks_effect_witness:
  "validateLinks_on \<lparr>heap_project = quiet_project, heap_logger = []\<rparr> =
     Inr \<lparr>heap_project = quiet_project, heap_logger = []\<rparr>
   \<and> validateLinks_on \<lparr>heap_project = demo_project, heap_logger = []\<rparr> =
     Inr \<lparr>heap_project = demo_project,
          heap_logger =
            [Message failed_to_resolve_link_to_0_in_comment_for_1_may_have_meant_2
               [lit ''@scope/pkg.Thing'', lit ''Thing'', lit ''@scope/pkg!Thing'']]\<rparr>"
proof -
  let ?quiet = "\<lparr>heap_project = quiet_project, heap_logger = []\<rparr>"
  let ?demo = "\<lparr>heap_project = demo_project, heap_logger = []\<rparr>"
  have checked: "checked_parts src guide = [] \<or>
      checked_parts src guide = [resolved_link, CodePart (lit ''x'')]" for src
    by (cases src) (simp_all add: guide_fields)
  have checked': "checked_parts src (Reflection.truncate quiet_project) = [] \<or>
      checked_parts src (Reflection.truncate quiet_project) =
        [TextPart (lit ''Hello''), resolved_link]" for src
    by (cases src) (simp_all add: quiet_traversal)
  have "\<forall>part \<in> set (checked_parts src r). \<not> broken_link_part part"
    if "reached quiet_project r" for r src
  proof -
    from that have "r \<in> set (visited quiet_project)" by (simp add: set_visited)
    then have "r = guide \<or> r = Reflection.truncate quiet_project"
      by (simp add: visited_quiet)
    with checked [of src] checked' [of src] link_status(4) show ?thesis by auto
  qed
  then have clean: "\<forall>r src. reached (heap_project ?quiet) r \<longrightarrow>
      (\<forall>part \<in> set (checked_parts src r). \<not> broken_link_part part)"
    by simp
  from validateLinks_effect [of ?quiet] obtain ws h'
    where "validateLinks_on ?quiet = Inr h'"
      and "(\<forall>r src. reached (heap_project ?quiet) r \<longrightarrow>
             (\<forall>part \<in> set (checked_parts src r). \<not> broken_link_part part)) \<longrightarrow>
           h' = ?quiet"
    by blast
  with clean have a: "validateLinks_on ?quiet = Inr ?quiet" by simp
  from validateLinks_effect [of ?demo] obtain ws h'
    where run: "validateLinks_on ?demo = Inr h'"
      and frame: "heap_project h' = heap_project ?demo"
      and log: "validateLinks (heap_project ?demo) (heap_logger ?demo) = Inr (heap_logger ?demo @ ws)"
        "heap_logger h' = heap_logger ?demo @ ws"
    by blast
  from log validateLinks_demo
  have "heap_logger h' =
      [Message failed_to_resolve_link_to_0_in_comment_for_1_may_have_meant_2
         [lit ''@scope/pkg.Thing'', lit ''Thing'', lit ''@scope/pkg!Thing'']]"
    by simp
  with frame have "h' = \<lparr>heap_project = demo_project,
      heap_logger =
        [Message failed_to_resolve_link_to_0_in_comment_for_1_may_have_meant_2
           [lit ''@scope/pkg.Thing'', lit ''Thing'', lit ''@scope/pkg!Thing'']]\<rparr>"
    by (cases h') simp
  with run have b: "validateLinks_on ?demo =
     Inr \<lparr>heap_project = demo_project,
          heap_logger =
            [Message failed_to_resolve_link_to_0_in_comment_for_1_may_have_meant_2
               [lit ''@scope/pkg.Thing'', lit ''Thing'', lit ''@scope/pkg!Thing'']]\<rparr>"
    by simp
  show ?thesis by (rule conjI [OF a b])
qed

text \<open>
  C8: an index event built from n search results has n search field records, all empty,
  and the weights \<^verbatim>\<open>name\<close> = 10, \<^verbatim>\<open>comment\<close> = 1 and \<^verbatim>\<open>document\<close> = 1 and no others, so
  that the weight of the name is ten times each of the other two.
\<close>

theorem new_IndexEvent_initial:
  "searchResults (new_IndexEvent results) = results
   \<and> searchFields (new_IndexEvent results) = replicate (length results) Map.empty
   \<and> length (searchFields (new_IndexEvent results)) = length results
   \<and> dom (searchFieldWeights (new_IndexEvent results)) =
       {lit ''name'', lit ''comment'', lit ''document''}
   \<and> card (dom (searchFieldWeights (new_IndexEvent results))) = 3
   \<and> (\<exists>name_weight comment_weight document_weight.
        searchFieldWeights (new_IndexEvent results) (lit ''name'') = Some name_weight \<and>
        searchFieldWeights (new_IndexEvent results) (lit ''comment'') = Some comment_weight \<and>
        searchFieldWeights (new_IndexEvent results) (lit ''document'') = Some document_weight \<and>
        name_weight = 10 \<and> comment_weight = 1 \<and> document_weight = 1 \<and>
        name_weight = 10 * comment_weight \<and> name_weight = 10 * document_weight)"
proof -
  have f: "searchFields (new_IndexEvent results) = replicate (length results) Map.empty"
    by (simp add: new_IndexEvent_def empty_records)
  have d: "dom (searchFieldWeights (new_IndexEvent results)) =
       {lit ''name'', lit ''comment'', lit ''document''}"
    by (auto simp: new_IndexEvent_def)
  have c: "card {lit ''name'', lit ''comment'', lit ''document''} = 3"
    by (simp add: built_in_fields_distinct)
  have w: "searchFieldWeights (new_IndexEvent results) (lit ''name'') = Some 10"
    "searchFieldWeights (new_IndexEvent results) (lit ''comment'') = Some 1"
    "searchFieldWeights (new_IndexEvent results) (lit ''document'') = Some 1"
    by (simp_all add: new_IndexEvent_def built_in_fields_distinct)
  have r: "searchResults (new_IndexEvent results) = results"
    by (simp add: new_IndexEvent_def)
  from r f d c w show ?thesis by simp
qed

theorem new_IndexEvent_initial_witness:
  "searchFields (new_IndexEvent [guide, thing]) = [Map.empty, Map.empty]
   \<and> searchFieldWeights (new_IndexEvent [guide, thing]) (lit ''name'') = Some 10"
proof -
  note initial = new_IndexEvent_initial [of "[guide, thing]"]
  from initial [THEN conjunct2, THEN conjunct1]
  have a: "searchFields (new_IndexEvent [guide, thing]) = [Map.empty, Map.empty]"
    by (simp add: numeral_2_eq_2)
  from initial have b: "searchFieldWeights (new_IndexEvent [guide, thing]) (lit ''name'') = Some 10"
    by blast
  show ?thesis by (rule conjI [OF a b])
qed

text \<open>
  C9: the broken links of a comment are those of its summary followed by those of the
  content of each block tag, in the order of the block tags; without a comment there are
  none, and the check of the comment emits nothing.
\<close>

theorem getBrokenLinks_order:
  "getBrokenLinks (Some c) =
     getBrokenPartLinks (summary c) @
     concat (map (\<lambda>tag. getBrokenPartLinks (content tag)) (blockTags c))
   \<and> getBrokenLinks None = []
   \<and> (comment r = None \<longrightarrow> check_comment r l = l)"
  by (simp add: getBrokenLinks_def fold_append_each check_comment_def)

theorem getBrokenLinks_order_witness:
  "comment guide = None
   \<and> check_comment guide [] = []
   \<and> getBrokenLinks
       (Some \<lparr>summary = [foo_link],
              blockTags = [\<lparr>content = [resolved_link]\<rparr>, \<lparr>content = [bare_scope_link]\<rparr>]\<rparr>) =
       [lit ''Foo.Bar'', lit ''@scope'']"
proof -
  let ?c = "\<lparr>summary = [foo_link],
              blockTags = [\<lparr>content = [resolved_link]\<rparr>, \<lparr>content = [bare_scope_link]\<rparr>]\<rparr>"
  note order = getBrokenLinks_order [of ?c guide "[]"]
  have none: "comment guide = None" by (rule guide_fields(1))
  from order [THEN conjunct2, THEN conjunct2, THEN mp, OF none]
  have a: "check_comment guide [] = []" .
  have p1: "getBrokenPartLinks [foo_link] = [lit ''Foo.Bar'']"
    by (simp add: getBrokenPartLinks_def foo_link_def string_eval)
  have p2: "getBrokenPartLinks [resolved_link] = []"
    by (simp add: getBrokenPartLinks_def resolved_link_def)
  have p3: "getBrokenPartLinks [bare_scope_link] = [lit ''@scope'']"
    by (simp add: getBrokenPartLinks_def bare_scope_link_def string_eval)
  from order [THEN conjunct1]
  have b: "getBrokenLinks (Some ?c) = [lit ''Foo.Bar'', lit ''@scope'']"
    by (simp add: p1 p2 p3)
  show ?thesis by (rule conjI [OF none conjI [OF a b]])
qed

text \<open>
  C10: when a broken part of a reflection that the run reaches has a trimmed text that
  starts with \<^verbatim>\<open>@\<close>, contains no \<^verbatim>\<open>!\<close> and contains none of \<^verbatim>\<open>.\<close>, \<^verbatim>\<open>#\<close>, \<^verbatim>\<open>~\<close>, the
  validator still emits for it the warning with a suggestion of the source, and the
  suggested text is the broken text itself; every warning of the run about this text has
  this form.
\<close>

theorem suggestion_without_separator:
  assumes "startsWith b (lit ''@'')" and "\<not> includes_str b (lit ''!'')"
    and "\<forall>c \<in> set b. c \<noteq> of_char CHR ''.'' \<and> c \<noteq> of_char CHR ''#'' \<and> c \<noteq> of_char CHR ''~''"
  shows "readme_body r b l =
           l @ [Message failed_to_resolve_link_to_0_in_readme_for_1_may_have_meant_2
                  [b, friendlyFullName r, b]]
       \<and> document_body r b l =
           l @ [Message failed_to_resolve_link_to_0_in_document_1_may_have_meant_2
                  [b, friendlyFullName r, b]]
       \<and> comment_body r b l =
           l @ [Message failed_to_resolve_link_to_0_in_comment_for_1_may_have_meant_2
                  [b, friendlyFullName r, b]]
       \<and> union_body r b l =
           l @ [Message failed_to_resolve_link_to_0_in_comment_for_1_may_have_meant_2
                  [b, friendlyFullName r, b]]
       \<and> (part \<in> set (checked_parts src r) \<and> broken_link_part part \<and>
            trim (part_text part) = b \<longrightarrow>
            (\<exists>pre post. checkReflection r l =
               l @ pre @ Message (suggestion_template src) [b, friendlyFullName r, b] # post))
       \<and> (reached p r \<and> part \<in> set (checked_parts src r) \<and> broken_link_part part \<and>
            trim (part_text part) = b \<longrightarrow>
            (\<exists>ws. validateLinks p l = Inr (l @ ws) \<and>
               Message (suggestion_template src) [b, friendlyFullName r, b] \<in> set ws \<and>
               with_suggestion (suggestion_template src) \<and>
               (\<forall>m \<in> set ws. hd (args m) = b \<longrightarrow>
                  with_suggestion (template_of m) \<and> (\<exists>name. args m = [b, name, b]))))"
proof -
  from assms(1,2) have scoped: "possibly_scoped b"
    using suggests_iff [of b] by simp
  from assms(3) have "\<forall>c \<in> set b. \<not> separator c"
    by (simp add: separator_def)
  then have same: "first_separator_replaced b = b"
    by (rule no_separator_unchanged)
  from scoped same have expected: "expected_warning src' name b =
      Message (suggestion_template src') [b, name, b]" for src' name
    by (simp add: expected_warning_def)
  have bodies: "readme_body r b l =
           l @ [Message failed_to_resolve_link_to_0_in_readme_for_1_may_have_meant_2
                  [b, friendlyFullName r, b]]"
     "document_body r b l =
           l @ [Message failed_to_resolve_link_to_0_in_document_1_may_have_meant_2
                  [b, friendlyFullName r, b]]"
     "comment_body r b l =
           l @ [Message failed_to_resolve_link_to_0_in_comment_for_1_may_have_meant_2
                  [b, friendlyFullName r, b]]"
     "union_body r b l =
           l @ [Message failed_to_resolve_link_to_0_in_comment_for_1_may_have_meant_2
                  [b, friendlyFullName r, b]]"
    by (simp_all add: readme_body_eq document_body_eq comment_body_eq union_body_eq expected)
  have member: "Message (suggestion_template src) [b, friendlyFullName r, b] \<in> set (warnings_of r)"
    if "part \<in> set (checked_parts src r)" "broken_link_part part" "trim (part_text part) = b"
  proof -
    from that have "b \<in> set (links_in src r)"
      by (auto simp: links_in_parts texts_where_def)
    then have "expected_warning src (friendlyFullName r) b \<in> set (warnings_from src r)"
      by (simp add: warnings_from_def)
    then have "expected_warning src (friendlyFullName r) b \<in> set (warnings_of r)"
      by (cases src) (simp_all add: warnings_of_def)
    then show ?thesis by (simp add: expected)
  qed
  have at_check: "\<exists>pre post. checkReflection r l =
      l @ pre @ Message (suggestion_template src) [b, friendlyFullName r, b] # post"
    if "part \<in> set (checked_parts src r) \<and> broken_link_part part \<and> trim (part_text part) = b"
  proof -
    from that member obtain pre post
      where "warnings_of r = pre @ Message (suggestion_template src) [b, friendlyFullName r, b] # post"
      by (meson split_list)
    then have "checkReflection r l =
        l @ pre @ Message (suggestion_template src) [b, friendlyFullName r, b] # post"
      by (simp add: checkReflection_eq)
    then show ?thesis by blast
  qed
  have form: "with_suggestion (template_of m) \<and> (\<exists>name. args m = [b, name, b])"
    if "reported_as_claimed m" "hd (args m) = b" for m
  proof -
    from that scoped same show ?thesis
      by (cases m) (auto simp: reported_as_claimed_def split: list.splits)
  qed
  have at_run: "\<exists>ws. validateLinks p l = Inr (l @ ws) \<and>
      Message (suggestion_template src) [b, friendlyFullName r, b] \<in> set ws \<and>
      with_suggestion (suggestion_template src) \<and>
      (\<forall>m \<in> set ws. hd (args m) = b \<longrightarrow>
         with_suggestion (template_of m) \<and> (\<exists>name. args m = [b, name, b]))"
    if "reached p r \<and> part \<in> set (checked_parts src r) \<and> broken_link_part part \<and>
      trim (part_text part) = b"
  proof (intro exI conjI)
    show "validateLinks p l = Inr (l @ concat (map warnings_of (visited p)))"
      by (rule validateLinks_eq)
    from that have "r \<in> set (visited p)" by (simp add: set_visited)
    with that member
    show "Message (suggestion_template src) [b, friendlyFullName r, b] \<in>
        set (concat (map warnings_of (visited p)))"
      by auto
    show "with_suggestion (suggestion_template src)"
      by (cases src) (simp_all add: with_suggestion_def)
    show "\<forall>m \<in> set (concat (map warnings_of (visited p))). hd (args m) = b \<longrightarrow>
        with_suggestion (template_of m) \<and> (\<exists>name. args m = [b, name, b])"
      using form warnings_of_as_claimed by auto
  qed
  from bodies at_check at_run show ?thesis by blast
qed

theorem suggestion_without_separator_witness:
  "startsWith (lit ''@scope'') (lit ''@'') \<and> \<not> includes_str (lit ''@scope'') (lit ''!'')
   \<and> of_char CHR ''.'' \<notin> set (lit ''@scope'') \<and> of_char CHR ''#'' \<notin> set (lit ''@scope'')
   \<and> of_char CHR ''~'' \<notin> set (lit ''@scope'')
   \<and> reached scope_project scope_user
   \<and> bare_scope_link \<in> set (checked_parts InComment scope_user)
   \<and> broken_link_part bare_scope_link
   \<and> trim (part_text bare_scope_link) = lit ''@scope''
   \<and> validateLinks scope_project [] =
       Inr [Message failed_to_resolve_link_to_0_in_comment_for_1_may_have_meant_2
              [lit ''@scope'', lit ''User'', lit ''@scope'']]
   \<and> Message (suggestion_template InComment) [lit ''@scope'', friendlyFullName scope_user,
        lit ''@scope'']
       \<in> set [Message failed_to_resolve_link_to_0_in_comment_for_1_may_have_meant_2
                [lit ''@scope'', lit ''User'', lit ''@scope'']]"
proof -
  have h1: "startsWith (lit ''@scope'') (lit ''@'')"
    by (simp add: string_eval)
  have h2: "\<not> includes_str (lit ''@scope'') (lit ''!'')"
    by (simp add: string_eval)
  have h3: "\<forall>c \<in> set (lit ''@scope'').
      c \<noteq> of_char CHR ''.'' \<and> c \<noteq> of_char CHR ''#'' \<and> c \<noteq> of_char CHR ''~''"
    by (simp add: lit_def)
  have sep: "of_char CHR ''.'' \<notin> set (lit ''@scope'')"
    "of_char CHR ''#'' \<notin> set (lit ''@scope'')" "of_char CHR ''~'' \<notin> set (lit ''@scope'')"
    by (simp_all add: lit_def)
  have reach: "reached scope_project scope_user"
    unfolding reached_def using scope_traversal(2) by (blast intro: ranI)
  have part: "bare_scope_link \<in> set (checked_parts InComment scope_user)"
    by (simp add: scope_user_fields)
  note found = conjI [OF reach conjI [OF part conjI [OF link_status(3) link_texts(3)]]]
  from suggestion_without_separator [OF h1 h2 h3, where p = scope_project and r = scope_user
    and part = bare_scope_link and src = InComment and l = "[]", THEN conjunct2, THEN conjunct2,
    THEN conjunct2, THEN conjunct2, THEN conjunct2, THEN mp, OF found]
  obtain ws where "validateLinks scope_project [] = Inr ([] @ ws)"
    and "Message (suggestion_template InComment)
      [lit ''@scope'', friendlyFullName scope_user, lit ''@scope''] \<in> set ws"
    by blast
  with validateLinks_scope
  have m: "Message (suggestion_template InComment)
      [lit ''@scope'', friendlyFullName scope_user, lit ''@scope'']
       \<in> set [Message failed_to_resolve_link_to_0_in_comment_for_1_may_have_meant_2
                [lit ''@scope'', lit ''User'', lit ''@scope'']]"
    by simp
  from h1 h2 sep reach part link_status(3) link_texts(3) validateLinks_scope m
  show ?thesis by (simp only: simp_thms)
qed

end
